theory Spec2Isabelle
  imports Main "HOL-Library.Sublist"
begin

section \<open>JavaScript string primitives\<close>

text \<open>
  A JavaScript string is a sequence of UTF-16 code units. The model uses \<^typ>\<open>string\<close>
  and reads each \<^typ>\<open>char\<close> as one code unit in the range 0..255. The functions below
  are the \<open>String.prototype\<close> methods the sources call, restricted to the argument
  shapes that occur there.
\<close>

text \<open>
  \<open>WhiteSpace\<close> and \<open>LineTerminator\<close> code units of ECMAScript that lie below 256:
  TAB, LF, VT, FF, CR, SP and NBSP. \<open>trim\<close> strips exactly these.
\<close>

definition is_space :: "char \<Rightarrow> bool" where
  "is_space c \<longleftrightarrow> c \<in> set [CHR 0x09, CHR 0x0A, CHR 0x0B, CHR 0x0C, CHR 0x0D, CHR 0x20, CHR 0xA0]"

definition trim :: "string \<Rightarrow> string" where
  "trim s = rev (dropWhile is_space (rev (dropWhile is_space s)))"

text \<open>\<open>s.startsWith(p)\<close>\<close>

definition startsWith :: "string \<Rightarrow> string \<Rightarrow> bool" where
  "startsWith s p \<longleftrightarrow> take (length p) s = p"

text \<open>\<open>s.substring(n)\<close> with one non-negative argument.\<close>

definition substring :: "string \<Rightarrow> nat \<Rightarrow> string" where
  "substring s n = drop n s"

text \<open>\<open>s.split('\n')\<close>: always at least one piece; the pieces contain no line feed.\<close>

fun split_nl :: "string \<Rightarrow> string list" where
  "split_nl [] = [[]]"
| "split_nl (c # cs) =
     (if c = CHR 0x0A then [] # split_nl cs
      else (case split_nl cs of [] \<Rightarrow> [[c]] | l # ls \<Rightarrow> (c # l) # ls))"

text \<open>\<open>s.indexOf(p)\<close>: the first index at which \<open>p\<close> occurs, or \<open>-1\<close>.\<close>

fun indexOf :: "string \<Rightarrow> string \<Rightarrow> int" where
  "indexOf [] p = (if p = [] then 0 else - 1)"
| "indexOf (c # cs) p =
     (if startsWith (c # cs) p then 0
      else (let r = indexOf cs p in if r = - 1 then - 1 else r + 1))"

text \<open>\<open>s.includes(p)\<close>\<close>

definition str_includes :: "string \<Rightarrow> string \<Rightarrow> bool" where
  "str_includes s p \<longleftrightarrow> indexOf s p \<noteq> - 1"

text \<open>\<open>s.lastIndexOf(c)\<close> for a one-character pattern: the last index of \<open>c\<close>, or \<open>-1\<close>.\<close>

definition lastIndexOf :: "string \<Rightarrow> char \<Rightarrow> int" where
  "lastIndexOf s c =
     (if c \<in> set s then int (length s) - 1 - int (length (takeWhile (\<lambda>x. x \<noteq> c) (rev s)))
      else - 1)"

text \<open>\<open>s.toLowerCase()\<close> on the ASCII letters (the only letters the callers pass).\<close>

definition lower_char :: "char \<Rightarrow> char" where
  "lower_char c =
     (let n = (of_char c :: nat) in if 65 \<le> n \<and> n \<le> 90 then char_of (n + 32) else c)"

definition toLowerCase :: "string \<Rightarrow> string" where
  "toLowerCase s = map lower_char s"


section \<open>M3U playlist parser (plugins/js/m3u-parser.js)\<close>

record channel =
  name :: string
  logo :: string
  category :: string
  url :: string
  tvgId :: string
  tvgName :: string

subsection \<open>\<open>parseExtInf\<close>\<close>

text \<open>
  The attribute pattern \<open>/([a-z-]+)="([^"]*)"/gi\<close>. Without the \<open>u\<close> flag, case-insensitive
  matching never maps a code unit above 127 to an ASCII letter, so the class \<open>[a-z-]\<close>
  accepts the ASCII letters of both cases and the hyphen.
\<close>

definition is_key_char :: "char \<Rightarrow> bool" where
  "is_key_char c \<longleftrightarrow>
     (let n = (of_char c :: nat) in (65 \<le> n \<and> n \<le> 90) \<or> (97 \<le> n \<and> n \<le> 122) \<or> c = CHR ''-'')"

text \<open>
  One attempt of the pattern at the head of \<open>s\<close>. The greedy key run is maximal: a shorter
  run would be followed by a key character, never by \<open>=\<close>. Likewise the value run stops at
  the first double quote. The result is the key, the value and the text after the match.
\<close>

definition attr_match_at :: "string \<Rightarrow> (string \<times> string \<times> string) option" where
  "attr_match_at s =
     (let k = takeWhile is_key_char s; r = dropWhile is_key_char s in
      if k \<noteq> [] \<and> startsWith r ''=\"'' then
        (let v = takeWhile (\<lambda>c. c \<noteq> CHR ''\"'') (drop 2 r);
             q = dropWhile (\<lambda>c. c \<noteq> CHR ''\"'') (drop 2 r)
         in case q of [] \<Rightarrow> None | _ # rest \<Rightarrow> Some (k, v, rest))
      else None)"

text \<open>
  The \<open>while ((match = attrPattern.exec(line)) !== null)\<close> loop: the matches of the global
  pattern from left to right, each search resuming after the previous match.
\<close>

function attr_matches :: "string \<Rightarrow> (string \<times> string) list" where
  "attr_matches [] = []"
| "attr_matches (c # cs) =
     (case attr_match_at (c # cs) of
        Some (k, v, rest) \<Rightarrow> (k, v) # attr_matches rest
      | None \<Rightarrow> attr_matches cs)"
  by pat_completeness auto
termination
proof (relation "measure length")
  fix c cs x2 k y v rest
  assume a: "attr_match_at (c # cs) = Some x2" "(k, y) = x2" "(v, rest) = y"
  let ?r = "dropWhile is_key_char (c # cs)"
  let ?q = "dropWhile (\<lambda>c. c \<noteq> CHR ''\"'') (drop 2 ?r)"
  from a have "\<exists>x. ?q = x # rest"
    by (auto simp: attr_match_at_def Let_def split: if_splits list.splits)
  then have "length rest < length ?q" by auto
  also have "length ?q \<le> length (drop 2 ?r)" by (rule length_dropWhile_le)
  also have "\<dots> \<le> length ?r" by simp
  also have "\<dots> \<le> length (c # cs)" by (rule length_dropWhile_le)
  finally show "(rest, c # cs) \<in> measure length" by simp
qed simp_all

text \<open>The \<open>switch (key)\<close> of the loop body.\<close>

definition set_attr :: "channel \<Rightarrow> string \<times> string \<Rightarrow> channel" where
  "set_attr ch kv =
     (let key = toLowerCase (fst kv); v = snd kv in
      if key = ''tvg-id'' then ch\<lparr>tvgId := v\<rparr>
      else if key = ''tvg-name'' then ch\<lparr>tvgName := v\<rparr>
      else if key = ''tvg-logo'' then ch\<lparr>logo := v\<rparr>
      else if key = ''group-title'' then ch\<lparr>category := v\<rparr>
      else ch)"

definition new_channel :: channel where
  "new_channel = \<lparr>name = [], logo = [], category = ''Uncategorized'', url = [],
                  tvgId = [], tvgName = []\<rparr>"

definition parseExtInf :: "string \<Rightarrow> channel" where
  "parseExtInf line =
     (let ch1 = foldl set_attr new_channel (attr_matches line);
          commaIndex = lastIndexOf line CHR '','';
          ch2 = (if commaIndex \<noteq> - 1
                 then ch1\<lparr>name := trim (substring line (nat (commaIndex + 1)))\<rparr> else ch1)
      in if name ch2 = [] \<and> tvgName ch2 \<noteq> [] then ch2\<lparr>name := tvgName ch2\<rparr> else ch2)"

subsection \<open>\<open>parse\<close>\<close>

text \<open>
  The loop state is the output array \<open>channels\<close> and the pending record \<open>currentChannel\<close>
  (\<open>None\<close> for \<open>null\<close>). \<open>parse_line\<close> is one iteration of the \<open>for\<close> loop on the raw line.
\<close>

type_synonym parse_state = "channel list \<times> channel option"

definition parse_line :: "parse_state \<Rightarrow> string \<Rightarrow> parse_state" where
  "parse_line st raw =
     (let line = trim raw; channels = fst st; currentChannel = snd st in
      if line = [] \<or> startsWith line ''#EXTM3U'' then st
      else if startsWith line ''#EXTINF:'' then (channels, Some (parseExtInf line))
      else if startsWith line ''#EXTGRP:'' then
        (case currentChannel of
           Some ch \<Rightarrow> (channels, Some (ch\<lparr>category := trim (substring line 8)\<rparr>))
         | None \<Rightarrow> st)
      else if startsWith line ''#'' then st
      else if 0 < length line \<and> currentChannel \<noteq> None then
        (channels @ [(the currentChannel)\<lparr>url := line\<rparr>], None)
      else st)"

definition parse_lines :: "string list \<Rightarrow> channel list" where
  "parse_lines ls = fst (foldl parse_line ([], None) ls)"

definition parse :: "string \<Rightarrow> channel list" where
  "parse content = parse_lines (split_nl content)"

subsection \<open>\<open>validate\<close>\<close>

text \<open>The argument is a string, so \<open>typeof content !== 'string'\<close> is false and
  \<open>!content\<close> holds exactly for the empty string.\<close>

definition validate :: "string \<Rightarrow> bool" where
  "validate content =
     (if content = [] then False
      else indexOf content ''#EXTM3U'' \<noteq> - 1 \<or> indexOf content ''#EXTINF'' \<noteq> - 1)"

subsection \<open>Line classes and playlist texts\<close>

text \<open>
  \<open>parse\<close> classifies a line after trimming it. A directive line opens a record, a URL
  line is non-empty and does not start with \<open>#\<close>, and a comment line is any other line
  that starts with \<open>#\<close>.
\<close>

definition is_extinf_line :: "string \<Rightarrow> bool" where
  "is_extinf_line raw \<longleftrightarrow> startsWith (trim raw) ''#EXTINF:''"

definition is_url_line :: "string \<Rightarrow> bool" where
  "is_url_line raw \<longleftrightarrow> trim raw \<noteq> [] \<and> \<not> startsWith (trim raw) ''#''"

definition is_comment_line :: "string \<Rightarrow> bool" where
  "is_comment_line raw \<longleftrightarrow> startsWith (trim raw) ''#'' \<and> \<not> startsWith (trim raw) ''#EXTINF:''"

definition no_newline :: "string \<Rightarrow> bool" where
  "no_newline l \<longleftrightarrow> CHR 0x0A \<notin> set l"

text \<open>The text whose lines are \<open>ls\<close> (\<open>ls.join('\\n')\<close>).\<close>

fun join_nl :: "string list \<Rightarrow> string" where
  "join_nl [] = []"
| "join_nl [l] = l"
| "join_nl (l # ls) = l @ CHR 0x0A # join_nl ls"

text \<open>
  A playlist made of directive/URL pairs and comment lines: \<open>Entry e cs u\<close> is the
  directive line \<open>e\<close>, comment lines \<open>cs\<close> that stand between it and its URL line, and
  the URL line \<open>u\<close>; \<open>Comment c\<close> is a comment line outside a pair.
\<close>

datatype m3u_item = Comment string | Entry string "string list" string

fun item_lines :: "m3u_item \<Rightarrow> string list" where
  "item_lines (Comment c) = [c]"
| "item_lines (Entry e cs u) = e # cs @ [u]"

fun wf_item :: "m3u_item \<Rightarrow> bool" where
  "wf_item (Comment c) \<longleftrightarrow> is_comment_line c \<and> no_newline c"
| "wf_item (Entry e cs u) \<longleftrightarrow>
     is_extinf_line e \<and> no_newline e \<and>
     list_all (\<lambda>c. is_comment_line c \<and> no_newline c) cs \<and>
     is_url_line u \<and> no_newline u"

fun entries :: "m3u_item list \<Rightarrow> (string \<times> string) list" where
  "entries [] = []"
| "entries (Comment c # is) = entries is"
| "entries (Entry e cs u # is) = (e, u) # entries is"

definition playlist_text :: "m3u_item list \<Rightarrow> string" where
  "playlist_text items = join_nl (concat (map item_lines items))"

text \<open>
  A channel record stems from a directive/URL pair when its URL is the trimmed URL line and
  its name, logo and \<open>tvg\<close> fields are those \<open>parseExtInf\<close> reads from the trimmed
  directive line. (The category is left out: an \<open>#EXTGRP:\<close> comment between the two lines
  overwrites it.)
\<close>

definition from_pair :: "string \<times> string \<Rightarrow> channel \<Rightarrow> bool" where
  "from_pair p ch \<longleftrightarrow>
     url ch = trim (snd p) \<and>
     name ch = name (parseExtInf (trim (fst p))) \<and>
     logo ch = logo (parseExtInf (trim (fst p))) \<and>
     tvgId ch = tvgId (parseExtInf (trim (fst p))) \<and>
     tvgName ch = tvgName (parseExtInf (trim (fst p)))"

definition same_info :: "channel \<Rightarrow> channel \<Rightarrow> bool" where
  "same_info a b \<longleftrightarrow>
     name a = name b \<and> logo a = logo b \<and> tvgId a = tvgId b \<and> tvgName a = tvgName b"

section \<open>Subtitle format conversion (\<open>convertSRTtoVTT\<close> of the subtitle manager)\<close>

text \<open>\<open>\d\<close> matches the ten ASCII digits only.\<close>

definition is_digit :: "char \<Rightarrow> bool" where
  "is_digit c \<longleftrightarrow> c \<in> set ''0123456789''"

text \<open>
  \<open>ts_at sep s\<close>: a timestamp \<open>dd:dd:dd<sep>ddd\<close> stands at the head of \<open>s\<close>. With
  \<open>sep\<close> a comma this is one attempt of the pattern \<open>/(\d{2}:\d{2}:\d{2}),(\d{3})/\<close> at
  the head of \<open>s\<close>; the pattern has no choice points, so the attempt is this test.
\<close>

definition ts_at :: "char \<Rightarrow> string \<Rightarrow> bool" where
  "ts_at sep s \<longleftrightarrow>
     12 \<le> length s \<and>
     is_digit (s ! 0) \<and> is_digit (s ! 1) \<and> s ! 2 = CHR '':'' \<and>
     is_digit (s ! 3) \<and> is_digit (s ! 4) \<and> s ! 5 = CHR '':'' \<and>
     is_digit (s ! 6) \<and> is_digit (s ! 7) \<and> s ! 8 = sep \<and>
     is_digit (s ! 9) \<and> is_digit (s ! 10) \<and> is_digit (s ! 11)"

text \<open>
  \<open>srtContent.replace(/(\d{2}:\d{2}:\d{2}),(\d{3})/g, '$1.$2')\<close>: the global replace scans
  from the left; where the pattern matches, the twelve matched code units are replaced by
  group 1, a dot and group 2, and the scan resumes behind the match; elsewhere the code
  unit is copied and the scan moves on by one.
\<close>

fun replace_timestamps :: "string \<Rightarrow> string" where
  "replace_timestamps [] = []"
| "replace_timestamps (c # cs) =
     (if ts_at CHR '','' (c # cs)
      then take 8 (c # cs) @ CHR ''.'' # take 3 (drop 9 (c # cs)) @
           replace_timestamps (drop 12 (c # cs))
      else c # replace_timestamps cs)"

definition vtt_header :: string where
  "vtt_header = ''WEBVTT'' @ [CHR 0x0A, CHR 0x0A]"

definition convertSRTtoVTT :: "string \<Rightarrow> string" where
  "convertSRTtoVTT srtContent = vtt_header @ replace_timestamps srtContent"

text \<open>
  The number of occurrences of a timestamp with separator \<open>sep\<close> in a text: the positions
  at which one starts.
\<close>

definition count_ts :: "char \<Rightarrow> string \<Rightarrow> nat" where
  "count_ts sep s = length (filter (\<lambda>p. ts_at sep (drop p s)) [0..<length s])"

text \<open>
  Two comma-form timestamps can only overlap when the second starts at the last or the
  last but one digit of the first. \<open>no_overlap s\<close>: that does not happen in \<open>s\<close>.
\<close>

definition no_overlap :: "string \<Rightarrow> bool" where
  "no_overlap s \<longleftrightarrow>
     list_all (\<lambda>p. \<not> (ts_at CHR '','' (drop p s) \<and>
                       (ts_at CHR '','' (drop (p + 10) s) \<or> ts_at CHR '','' (drop (p + 11) s))))
       [0..<length s]"

text \<open>The only change the rewrite makes to a code unit: a comma becomes a dot.\<close>

definition comma_to_dot :: "char \<Rightarrow> char \<Rightarrow> bool" where
  "comma_to_dot a b \<longleftrightarrow> b = a \<or> (a = CHR '','' \<and> b = CHR ''.'')"

text \<open>
  The rewrite as the specification words it: every comma-form timestamp has its comma (at
  offset 8) turned into a dot, and every other code unit is passed through unchanged.
\<close>

definition rewrite_all :: "string \<Rightarrow> string" where
  "rewrite_all s =
     map (\<lambda>i. if 8 \<le> i \<and> ts_at CHR '','' (drop (i - 8) s) then CHR ''.'' else s ! i)
       [0..<length s]"


section \<open>JavaScript values and the network boundary\<close>

text \<open>
  Values that reach the code from decoded JSON bodies, and the two kinds of value a
  property read can add to them: \<open>undefined\<close>, and a built-in method (\<open>Native name\<close>).
  Numbers are modelled as integers: the sources never compute with them, they only test
  them for truthiness and convert them to strings. The model is exact for the integers
  that a double holds and prints in plain digits (magnitude below \<open>10^21\<close>); fractions and
  larger numbers are outside it. An object is the list of its own properties; the first
  binding of a key is the property's value.
\<close>

datatype jsval =
    Undefined | Null | Bool bool | Num int | Str string | Arr "jsval list"
  | Obj "(string \<times> jsval) list" | Native string

text \<open>What a \<open>throw\<close> or a rejected promise carries.\<close>

datatype error =
    Error string    \<comment> \<open>\<open>new Error(message)\<close>\<close>
  | TypeError       \<comment> \<open>a property read on \<open>null\<close>/\<open>undefined\<close>, or a call of a non-function\<close>
  | FetchFailed     \<comment> \<open>\<open>fetch\<close> rejects: no response was received\<close>
  | BodyFailed      \<comment> \<open>\<open>response.json()\<close> or \<open>response.text()\<close> rejects\<close>

text \<open>\<open>ToBoolean\<close>\<close>

fun truthy :: "jsval \<Rightarrow> bool" where
  "truthy Undefined = False"
| "truthy Null = False"
| "truthy (Bool b) = b"
| "truthy (Num n) = (n \<noteq> 0)"
| "truthy (Str s) = (s \<noteq> [])"
| "truthy (Arr xs) = True"
| "truthy (Obj kvs) = True"
| "truthy (Native f) = True"

text \<open>\<open>a || b\<close>\<close>

definition js_or :: "jsval \<Rightarrow> jsval \<Rightarrow> jsval" where
  "js_or a b = (if truthy a then a else b)"

text \<open>Decimal digits of a number, as \<open>ToString\<close> prints an integer.\<close>

function show_nat :: "nat \<Rightarrow> string" where
  "show_nat n =
     (if n < 10 then [char_of (48 + n)] else show_nat (n div 10) @ [char_of (48 + n mod 10)])"
  by pat_completeness auto
termination
  by (relation "measure id") auto

definition show_int :: "int \<Rightarrow> string" where
  "show_int i = (if i < 0 then CHR ''-'' # show_nat (nat (- i)) else show_nat (nat i))"

text \<open>\<open>xs.join(sep)\<close> on strings.\<close>

fun join_with :: "string \<Rightarrow> string list \<Rightarrow> string" where
  "join_with sep [] = []"
| "join_with sep [x] = x"
| "join_with sep (x # xs) = x @ sep @ join_with sep xs"

text \<open>
  \<open>ToString\<close>, as string concatenation and \<open>fetch\<close> apply it. An array prints its
  elements joined by commas, with \<open>null\<close> and \<open>undefined\<close> elements printed empty. A
  built-in method prints as the engines print native code. An object prints through
  \<open>Object.prototype.toString\<close>; an object that has an own property \<open>toString\<close> or
  \<open>valueOf\<close> shadows it (JavaScript then throws a \<open>TypeError\<close> or prints something else),
  and such objects are outside what this function models.
\<close>

fun to_string :: "jsval \<Rightarrow> string" where
  "to_string Undefined = ''undefined''"
| "to_string Null = ''null''"
| "to_string (Bool b) = (if b then ''true'' else ''false'')"
| "to_string (Num n) = show_int n"
| "to_string (Str s) = s"
| "to_string (Arr xs) =
     join_with '','' (map (\<lambda>x. if x = Null \<or> x = Undefined then [] else to_string x) xs)"
| "to_string (Obj kvs) = ''[object Object]''"
| "to_string (Native f) = ''function '' @ f @ ''() { [native code] }''"

text \<open>
  \<open>v.key\<close> for the property names the sources read (\<open>data\<close>, \<open>attributes\<close>, \<open>files\<close>,
  \<open>file_id\<close>, \<open>file_name\<close>, \<open>release\<close>, \<open>feature_details\<close>, \<open>title\<close>, \<open>language\<close>,
  \<open>download_count\<close>, \<open>id\<close>, \<open>name\<close>, \<open>url\<close>, \<open>format\<close>, \<open>link\<close>, \<open>stream_id\<close>,
  \<open>stream_icon\<close>, \<open>category_name\<close>, \<open>epg_channel_id\<close>). Reading a property of \<open>null\<close>
  or \<open>undefined\<close> throws. An object yields its own property, or \<open>undefined\<close>: none of the
  names is a property of \<open>Object.prototype\<close>. A string has one of them, the method
  \<open>link\<close> of \<open>String.prototype\<close>; arrays, numbers, booleans and built-in methods have
  none (the \<open>name\<close> of a built-in method is only read on decoded items, which are not
  methods, but is given here for completeness).
\<close>

fun get_prop :: "jsval \<Rightarrow> string \<Rightarrow> error + jsval" where
  "get_prop Undefined k = Inl TypeError"
| "get_prop Null k = Inl TypeError"
| "get_prop (Obj kvs) k = Inr (case map_of kvs k of Some v \<Rightarrow> v | None \<Rightarrow> Undefined)"
| "get_prop (Str s) k = Inr (if k = ''link'' then Native ''link'' else Undefined)"
| "get_prop (Native f) k = Inr (if k = ''name'' then Str f else Undefined)"
| "get_prop v k = Inr Undefined"

text \<open>\<open>v[0]\<close>\<close>

fun get_first :: "jsval \<Rightarrow> error + jsval" where
  "get_first Undefined = Inl TypeError"
| "get_first Null = Inl TypeError"
| "get_first (Arr xs) = Inr (case xs of [] \<Rightarrow> Undefined | x # _ \<Rightarrow> x)"
| "get_first (Str s) = Inr (case s of [] \<Rightarrow> Undefined | c # _ \<Rightarrow> Str [c])"
| "get_first (Obj kvs) = Inr (case map_of kvs ''0'' of Some v \<Rightarrow> v | None \<Rightarrow> Undefined)"
| "get_first v = Inr Undefined"

text \<open>
  \<open>encodeURIComponent\<close> on code units below 256: the unreserved characters are kept, any
  other code unit is replaced by the percent-escapes of its UTF-8 bytes.
\<close>

definition hex_digit :: "nat \<Rightarrow> char" where
  "hex_digit d = (if d < 10 then char_of (48 + d) else char_of (55 + d))"

definition percent :: "nat \<Rightarrow> string" where
  "percent b = [CHR ''%'', hex_digit (b div 16), hex_digit (b mod 16)]"

definition uri_unreserved :: "char \<Rightarrow> bool" where
  "uri_unreserved c \<longleftrightarrow>
     (let n = (of_char c :: nat) in
      (65 \<le> n \<and> n \<le> 90) \<or> (97 \<le> n \<and> n \<le> 122) \<or> (48 \<le> n \<and> n \<le> 57) \<or>
      c \<in> set ''-_.!~*'()'')"

definition encode_char :: "char \<Rightarrow> string" where
  "encode_char c =
     (let n = (of_char c :: nat) in
      if uri_unreserved c then [c]
      else if n < 128 then percent n
      else percent (192 + n div 64) @ percent (128 + n mod 64))"

definition encodeURIComponent :: "string \<Rightarrow> string" where
  "encodeURIComponent s = concat (map encode_char s)"

subsection \<open>Requests and responses\<close>

record request =
  req_method :: string
  req_url :: string
  headers :: "(string \<times> string) list"
  body :: "jsval option"    \<comment> \<open>the value handed to \<open>JSON.stringify\<close>\<close>

record response =
  ok :: bool
  status :: nat
  json_body :: "jsval option"   \<comment> \<open>\<open>None\<close>: \<open>response.json()\<close> rejects\<close>
  text_body :: "string option"  \<comment> \<open>\<open>None\<close>: \<open>response.text()\<close> rejects\<close>

datatype http_result = NoResponse | Response response


section \<open>Storage (the \<open>IPTVStorage\<close> functions the subtitle manager calls)\<close>

text \<open>
  The stored configuration is typed as the data model has it: a provider has a list of
  language codes, an optional URL and an optional key. Where two records of the sources
  share a field name (\<open>name\<close>, \<open>url\<close>, \<open>language\<close>, \<open>format\<close>, \<open>id\<close>), the later record
  carries a prefix on it.
\<close>

record subtitle_server =
  server_name :: string
  serverType :: string
  apiUrl :: "string option"
  apiKey :: "string option"
  languages :: "string list"
  autoLoad :: bool

text \<open>A search result. Its fields are whatever the provider's body held.\<close>

record subtitle =
  sub_id :: jsval
  sub_name :: jsval
  sub_language :: jsval
  downloads :: jsval
  sub_url :: jsval
  sub_format :: jsval
  sub_serverType :: jsval
  serverInfo :: "subtitle_server option"

record saved_subtitle =
  channelId :: string
  saved_language :: string
  saved_content :: string
  saved_format :: string
  savedAt :: string

record storage =
  subtitle_servers :: "subtitle_server list"
  local_subtitles :: "subtitle list"
  channel_subtitles :: "string \<times> string \<Rightarrow> saved_subtitle option"

text \<open>
  The state the operations act on: the requests issued so far (oldest first), the stored
  data, and the errors written to the console.
\<close>

record world =
  requests :: "request list"
  store :: storage
  console :: "error list"

text \<open>
  What the code cannot decide itself: the answer of the network to a request (which may
  depend on the requests made before), the time \<open>new Date()\<close> reads, whether
  \<open>localStorage.setItem\<close> succeeds, and whether the \<open>M3UParser\<close> script is loaded.
\<close>

record env =
  net :: "request list \<Rightarrow> request \<Rightarrow> http_result"
  clock :: "request list \<Rightarrow> string"
  setItem_ok :: bool
  m3u_parser_defined :: bool

definition fetch :: "env \<Rightarrow> request \<Rightarrow> world \<Rightarrow> http_result \<times> world" where
  "fetch e rq w = (net e (requests w) rq, w\<lparr>requests := requests w @ [rq]\<rparr>)"

definition getSubtitleServers :: "world \<Rightarrow> subtitle_server list" where
  "getSubtitleServers w = subtitle_servers (store w)"

text \<open>
  \<open>getChannelSubtitle\<close> reads \<open>subtitles[channelId][language]\<close> on plain objects. The store
  holds what \<open>saveChannelSubtitle\<close> wrote; for a channel id or a language code that is the
  name of a property of \<open>Object.prototype\<close> (\<open>constructor\<close>, \<open>toString\<close>, ...) the read
  would find the inherited property where nothing was saved. Such keys are outside the
  model: ids are the generated channel ids and languages are language codes.
\<close>

definition getChannelSubtitle :: "world \<Rightarrow> string \<Rightarrow> string \<Rightarrow> saved_subtitle option" where
  "getChannelSubtitle w cid lang = channel_subtitles (store w) (cid, lang)"

definition saveChannelSubtitle ::
  "env \<Rightarrow> string \<Rightarrow> string \<Rightarrow> saved_subtitle \<Rightarrow> world \<Rightarrow> bool \<times> world" where
  "saveChannelSubtitle e cid lang sub w =
     (if setItem_ok e
      then (True, w\<lparr>store := (store w)\<lparr>channel_subtitles :=
                      (channel_subtitles (store w))((cid, lang) := Some sub)\<rparr>\<rparr>)
      else (False, w\<lparr>console := console w @ [Error ''Error saving channel subtitle'']\<rparr>))"


section \<open>Subtitle manager\<close>

subsection \<open>Helpers for the sequencing of fallible steps\<close>

definition bind_err :: "error + 'a \<Rightarrow> ('a \<Rightarrow> error + 'b) \<Rightarrow> error + 'b" where
  "bind_err r f = (case r of Inl err \<Rightarrow> Inl err | Inr x \<Rightarrow> f x)"

text \<open>\<open>xs.map(f)\<close> where \<open>f\<close> may throw: the first throw ends the map.\<close>

fun map_err :: "('a \<Rightarrow> error + 'b) \<Rightarrow> 'a list \<Rightarrow> error + 'b list" where
  "map_err f [] = Inr []"
| "map_err f (x # xs) =
     (case f x of
        Inl err \<Rightarrow> Inl err
      | Inr y \<Rightarrow> (case map_err f xs of Inl err \<Rightarrow> Inl err | Inr ys \<Rightarrow> Inr (y # ys)))"

text \<open>\<open>s.split(c).pop()\<close>: the part of \<open>s\<close> behind the last \<open>c\<close>.\<close>

definition last_piece :: "char \<Rightarrow> string \<Rightarrow> string" where
  "last_piece c s = rev (takeWhile (\<lambda>x. x \<noteq> c) (rev s))"

text \<open>\<open>!server.apiKey\<close>, \<open>server.apiUrl || d\<close>: an absent or empty string is falsy.\<close>

definition present :: "string option \<Rightarrow> bool" where
  "present x \<longleftrightarrow> (case x of None \<Rightarrow> False | Some s \<Rightarrow> s \<noteq> [])"

definition opt_string :: "string option \<Rightarrow> string" where
  "opt_string x = (case x of None \<Rightarrow> ''undefined'' | Some s \<Rightarrow> s)"

definition api_base :: "subtitle_server \<Rightarrow> string" where
  "api_base server =
     (if present (apiUrl server) then the (apiUrl server)
      else ''https://api.opensubtitles.com/api/v1'')"

subsection \<open>\<open>searchOpenSubtitles\<close>\<close>

text \<open>The callback of \<open>data.data.map\<close>.\<close>

definition os_item :: "subtitle_server \<Rightarrow> jsval \<Rightarrow> error + subtitle" where
  "os_item server sub =
     bind_err (get_prop sub ''attributes'') (\<lambda>attrs.
     bind_err (get_prop attrs ''files'') (\<lambda>files.
     bind_err (get_first files) (\<lambda>file0.
     bind_err (get_prop file0 ''file_id'') (\<lambda>file_id.
     bind_err (get_prop attrs ''release'') (\<lambda>release.
     bind_err (if truthy release then Inr release
               else bind_err (get_prop attrs ''feature_details'') (\<lambda>fd. get_prop fd ''title''))
       (\<lambda>nm.
     bind_err (get_prop attrs ''language'') (\<lambda>lang.
     bind_err (get_prop attrs ''download_count'') (\<lambda>cnt.
     bind_err (get_prop file0 ''file_name'') (\<lambda>file_name.
       (case file_name of
          Str fname \<Rightarrow>
            Inr \<lparr>sub_id = file_id, sub_name = nm, sub_language = lang, downloads = cnt,
                 sub_url = file_id, sub_format = Str (last_piece CHR ''.'' fname),
                 sub_serverType = Str ''opensubtitles'', serverInfo = Some server\<rparr>
        | _ \<Rightarrow> Inl TypeError))))))))))"

definition os_search_request :: "subtitle_server \<Rightarrow> string \<Rightarrow> string \<Rightarrow> request" where
  "os_search_request server query language =
     \<lparr>req_method = ''GET'',
      req_url = api_base server @ ''/subtitles?query='' @ encodeURIComponent query @
                ''&languages='' @ language,
      headers = [(''Api-Key'', opt_string (apiKey server)),
                 (''Content-Type'', ''application/json'')],
      body = None\<rparr>"

definition searchOpenSubtitles ::
  "env \<Rightarrow> subtitle_server \<Rightarrow> string \<Rightarrow> string \<Rightarrow> world \<Rightarrow> (error + subtitle list) \<times> world" where
  "searchOpenSubtitles e server query language w =
     (if \<not> present (apiKey server) then (Inl (Error ''OpenSubtitles requires an API key''), w)
      else
        (case fetch e (os_search_request server query language) w of
           (NoResponse, w1) \<Rightarrow> (Inl FetchFailed, w1)
         | (Response resp, w1) \<Rightarrow>
             if \<not> ok resp
             then (Inl (Error (''OpenSubtitles API error: '' @ show_nat (status resp))), w1)
             else
               (case json_body resp of
                  None \<Rightarrow> (Inl BodyFailed, w1)
                | Some data \<Rightarrow>
                    (case get_prop data ''data'' of
                       Inl err \<Rightarrow> (Inl err, w1)
                     | Inr (Arr items) \<Rightarrow> (map_err (os_item server) items, w1)
                     | Inr _ \<Rightarrow> (Inr [], w1)))))"

subsection \<open>\<open>searchCustomAPI\<close>\<close>

definition custom_item :: "subtitle_server \<Rightarrow> string \<Rightarrow> jsval \<Rightarrow> error + subtitle" where
  "custom_item server language sub =
     bind_err (get_prop sub ''id'') (\<lambda>i.
     bind_err (get_prop sub ''url'') (\<lambda>u.
     bind_err (get_prop sub ''name'') (\<lambda>nm.
     bind_err (get_prop sub ''language'') (\<lambda>lang.
     bind_err (get_prop sub ''format'') (\<lambda>fmt.
       Inr \<lparr>sub_id = js_or i u, sub_name = nm, sub_language = js_or lang (Str language),
            downloads = Undefined, sub_url = u, sub_format = js_or fmt (Str ''srt''),
            sub_serverType = Str ''custom'', serverInfo = Some server\<rparr>)))))"

definition custom_search_request :: "subtitle_server \<Rightarrow> string \<Rightarrow> string \<Rightarrow> request" where
  "custom_search_request server query language =
     \<lparr>req_method = ''GET'',
      req_url = opt_string (apiUrl server) @ ''?query='' @ encodeURIComponent query @
                ''&lang='' @ language,
      headers = (if present (apiKey server)
                 then [(''Authorization'', ''Bearer '' @ the (apiKey server))] else []),
      body = None\<rparr>"

definition searchCustomAPI ::
  "env \<Rightarrow> subtitle_server \<Rightarrow> string \<Rightarrow> string \<Rightarrow> world \<Rightarrow> (error + subtitle list) \<times> world" where
  "searchCustomAPI e server query language w =
     (case fetch e (custom_search_request server query language) w of
        (NoResponse, w1) \<Rightarrow> (Inl FetchFailed, w1)
      | (Response resp, w1) \<Rightarrow>
          if \<not> ok resp
          then (Inl (Error (''Custom API error: '' @ show_nat (status resp))), w1)
          else
            (case json_body resp of
               None \<Rightarrow> (Inl BodyFailed, w1)
             | Some (Arr items) \<Rightarrow> (map_err (custom_item server language) items, w1)
             | Some _ \<Rightarrow> (Inl TypeError, w1)))"

subsection \<open>\<open>getLocalSubtitles\<close>, \<open>searchOnServer\<close>\<close>

definition getLocalSubtitles :: "string \<Rightarrow> world \<Rightarrow> subtitle list" where
  "getLocalSubtitles language w =
     filter (\<lambda>sub. sub_language sub = Str language) (local_subtitles (store w))"

definition searchOnServer ::
  "env \<Rightarrow> subtitle_server \<Rightarrow> string \<Rightarrow> string \<Rightarrow> world \<Rightarrow> (error + subtitle list) \<times> world" where
  "searchOnServer e server query language w =
     (if serverType server = ''opensubtitles'' then searchOpenSubtitles e server query language w
      else if serverType server = ''custom'' then searchCustomAPI e server query language w
      else if serverType server = ''local'' then (Inr (getLocalSubtitles language w), w)
      else (Inr [], w))"

subsection \<open>\<open>searchSubtitles\<close>\<close>

text \<open>
  The \<open>for\<close> loop over the servers, with \<open>allResults\<close> as accumulator. The \<open>catch\<close>
  writes the error to the console and lets the loop go on.
\<close>

fun search_loop ::
  "env \<Rightarrow> string \<Rightarrow> string \<Rightarrow> subtitle_server list \<Rightarrow> subtitle list \<Rightarrow> world \<Rightarrow>
   subtitle list \<times> world" where
  "search_loop e query language [] allResults w = (allResults, w)"
| "search_loop e query language (server # rest) allResults w =
     (if language \<notin> set (languages server)
      then search_loop e query language rest allResults w
      else
        (case searchOnServer e server query language w of
           (Inr results, w1) \<Rightarrow> search_loop e query language rest (allResults @ results) w1
         | (Inl err, w1) \<Rightarrow>
             search_loop e query language rest allResults
               (w1\<lparr>console := console w1 @ [err]\<rparr>)))"

definition searchSubtitles ::
  "env \<Rightarrow> string \<Rightarrow> string \<Rightarrow> world \<Rightarrow> (error + subtitle list) \<times> world" where
  "searchSubtitles e query language w =
     (let servers = getSubtitleServers w in
      if length servers = 0 then (Inl (Error ''No subtitle servers configured''), w)
      else (case search_loop e query language servers [] w of
              (allResults, w1) \<Rightarrow> (Inr allResults, w1)))"


subsection \<open>\<open>downloadSubtitle\<close>\<close>

definition get_request :: "string \<Rightarrow> request" where
  "get_request u = \<lparr>req_method = ''GET'', req_url = u, headers = [], body = None\<rparr>"

definition downloadFromURL :: "env \<Rightarrow> string \<Rightarrow> world \<Rightarrow> (error + string) \<times> world" where
  "downloadFromURL e u w =
     (case fetch e (get_request u) w of
        (NoResponse, w1) \<Rightarrow> (Inl FetchFailed, w1)
      | (Response resp, w1) \<Rightarrow>
          if \<not> ok resp then (Inl (Error (''Download failed: '' @ show_nat (status resp))), w1)
          else (case text_body resp of
                  None \<Rightarrow> (Inl BodyFailed, w1)
                | Some txt \<Rightarrow> (Inr txt, w1)))"

definition os_download_request :: "subtitle_server \<Rightarrow> jsval \<Rightarrow> request" where
  "os_download_request info file_id =
     \<lparr>req_method = ''POST'', req_url = api_base info @ ''/download'',
      headers = [(''Api-Key'', opt_string (apiKey info)),
                 (''Content-Type'', ''application/json'')],
      body = Some (Obj [(''file_id'', file_id)])\<rparr>"

definition downloadFromOpenSubtitles ::
  "env \<Rightarrow> subtitle \<Rightarrow> world \<Rightarrow> (error + string) \<times> world" where
  "downloadFromOpenSubtitles e sub w =
     (case serverInfo sub of
        None \<Rightarrow> (Inl TypeError, w)
      | Some info \<Rightarrow>
          (case fetch e (os_download_request info (sub_url sub)) w of
             (NoResponse, w1) \<Rightarrow> (Inl FetchFailed, w1)
           | (Response resp, w1) \<Rightarrow>
               if \<not> ok resp
               then (Inl (Error (''Download failed: '' @ show_nat (status resp))), w1)
               else
                 (case json_body resp of
                    None \<Rightarrow> (Inl BodyFailed, w1)
                  | Some data \<Rightarrow>
                      (case get_prop data ''link'' of
                         Inl err \<Rightarrow> (Inl err, w1)
                       | Inr link \<Rightarrow>
                           if truthy link then downloadFromURL e (to_string link) w1
                           else (Inl (Error ''No download link provided''), w1)))))"

definition downloadSubtitle :: "env \<Rightarrow> subtitle \<Rightarrow> world \<Rightarrow> (error + string) \<times> world" where
  "downloadSubtitle e sub w =
     (if sub_serverType sub = Str ''opensubtitles'' then downloadFromOpenSubtitles e sub w
      else if sub_serverType sub = Str ''custom'' \<or> sub_serverType sub = Str ''local''
      then downloadFromURL e (to_string (sub_url sub)) w
      else (Inl (Error ''Unknown server type''), w))"

subsection \<open>\<open>saveSubtitle\<close>, \<open>getSavedSubtitle\<close>\<close>

definition saveSubtitle ::
  "env \<Rightarrow> string \<Rightarrow> string \<Rightarrow> string \<Rightarrow> string \<Rightarrow> world \<Rightarrow> saved_subtitle \<times> world" where
  "saveSubtitle e cid language txt fmt w =
     (let sub = \<lparr>channelId = cid, saved_language = language, saved_content = txt,
                  saved_format = fmt, savedAt = clock e (requests w)\<rparr>
      in (sub, snd (saveChannelSubtitle e cid language sub w)))"

definition getSavedSubtitle :: "world \<Rightarrow> string \<Rightarrow> string \<Rightarrow> saved_subtitle option" where
  "getSavedSubtitle w cid language = getChannelSubtitle w cid language"

subsection \<open>\<open>autoLoadSubtitles\<close>\<close>

text \<open>
  One pass through the body of the inner loop, the \<open>try\<close> with its \<open>catch\<close>, for one
  language: \<open>Some sub\<close> when the body returns \<open>sub\<close>, \<open>None\<close> when the loop goes on.
\<close>

definition auto_try ::
  "env \<Rightarrow> string \<Rightarrow> string \<Rightarrow> string \<Rightarrow> world \<Rightarrow> saved_subtitle option \<times> world" where
  "auto_try e contentName cid lang w =
     (case getSavedSubtitle w cid lang of
        Some saved \<Rightarrow> (Some saved, w)
      | None \<Rightarrow>
          (case searchSubtitles e contentName lang w of
             (Inl err, w1) \<Rightarrow> (None, w1\<lparr>console := console w1 @ [err]\<rparr>)
           | (Inr [], w1) \<Rightarrow> (None, w1)
           | (Inr (first # others), w1) \<Rightarrow>
               (case downloadSubtitle e first w1 of
                  (Inl err, w2) \<Rightarrow> (None, w2\<lparr>console := console w2 @ [err]\<rparr>)
                | (Inr txt, w2) \<Rightarrow>
                    (let txt' = (if sub_format first = Str ''srt''
                                 then convertSRTtoVTT txt else txt);
                         r = saveSubtitle e cid lang txt' ''vtt'' w2
                     in (Some (fst r), snd r)))))"

text \<open>The inner loop over the languages of one server.\<close>

fun auto_langs ::
  "env \<Rightarrow> string \<Rightarrow> string \<Rightarrow> string list \<Rightarrow> world \<Rightarrow> saved_subtitle option \<times> world" where
  "auto_langs e contentName cid [] w = (None, w)"
| "auto_langs e contentName cid (lang # langs) w =
     (case auto_try e contentName cid lang w of
        (Some sub, w1) \<Rightarrow> (Some sub, w1)
      | (None, w1) \<Rightarrow> auto_langs e contentName cid langs w1)"

text \<open>The outer loop over the servers with \<open>autoLoad\<close>.\<close>

fun auto_servers ::
  "env \<Rightarrow> string \<Rightarrow> string \<Rightarrow> subtitle_server list \<Rightarrow> world \<Rightarrow>
   saved_subtitle option \<times> world" where
  "auto_servers e contentName cid [] w = (None, w)"
| "auto_servers e contentName cid (server # rest) w =
     (case auto_langs e contentName cid (languages server) w of
        (Some sub, w1) \<Rightarrow> (Some sub, w1)
      | (None, w1) \<Rightarrow> auto_servers e contentName cid rest w1)"

definition autoLoadSubtitles ::
  "env \<Rightarrow> string \<Rightarrow> string \<Rightarrow> world \<Rightarrow> saved_subtitle option \<times> world" where
  "autoLoadSubtitles e contentName cid w =
     (let autoLoadServers = filter autoLoad (getSubtitleServers w) in
      if length autoLoadServers = 0 then (None, w)
      else auto_servers e contentName cid autoLoadServers w)"


section \<open>IP server channel loader\<close>

record server_info =
  protocol :: string
  ip :: string
  port :: string
  apiPath :: "string option"
  username :: string
  password :: string

record xtream_channel =
  x_name :: jsval
  x_url :: string
  x_logo :: jsval
  x_category :: jsval
  epg_channel_id :: jsval
  stream_id :: jsval

record simple_channel =
  s_name :: string
  s_logo :: "string option"
  s_category :: string
  s_url :: string

text \<open>What \<open>loadChannels\<close> resolves to: the channels of whichever code path built them.\<close>

datatype channels =
    XtreamChannels "xtream_channel list"
  | ParsedChannels "channel list"
  | SimpleChannels "simple_channel list"

subsection \<open>\<open>loadXtreamChannels\<close>\<close>

definition xtream_item :: "string \<Rightarrow> string \<Rightarrow> string \<Rightarrow> jsval \<Rightarrow> error + xtream_channel" where
  "xtream_item baseUrl user pass stream =
     bind_err (get_prop stream ''stream_id'') (\<lambda>sid.
     bind_err (get_prop stream ''name'') (\<lambda>nm.
     bind_err (get_prop stream ''stream_icon'') (\<lambda>icon.
     bind_err (get_prop stream ''category_name'') (\<lambda>cat.
     bind_err (get_prop stream ''epg_channel_id'') (\<lambda>epg.
       Inr \<lparr>x_name = js_or nm (Str ''Unknown Channel''),
            x_url = baseUrl @ ''/live/'' @ user @ ''/'' @ pass @ ''/'' @ to_string sid @ ''.ts'',
            x_logo = js_or icon (Str []),
            x_category = js_or cat (Str ''Uncategorized''),
            epg_channel_id = js_or epg (Str []),
            stream_id = sid\<rparr>)))))"

definition xtream_request :: "string \<Rightarrow> string \<Rightarrow> string \<Rightarrow> string \<Rightarrow> request" where
  "xtream_request baseUrl path user pass =
     get_request (baseUrl @ path @ ''?username='' @ encodeURIComponent user @
                  ''&password='' @ encodeURIComponent pass @ ''&action=get_live_streams'')"

definition loadXtreamChannels ::
  "env \<Rightarrow> string \<Rightarrow> string \<Rightarrow> string \<Rightarrow> string \<Rightarrow> world \<Rightarrow> (error + channels) \<times> world" where
  "loadXtreamChannels e baseUrl path user pass w =
     (case fetch e (xtream_request baseUrl path user pass) w of
        (NoResponse, w1) \<Rightarrow> (Inl FetchFailed, w1)
      | (Response resp, w1) \<Rightarrow>
          if \<not> ok resp
          then (Inl (Error (''Server returned error: '' @ show_nat (status resp))), w1)
          else
            (case json_body resp of
               None \<Rightarrow> (Inl BodyFailed, w1)
             | Some (Arr items) \<Rightarrow>
                 (case map_err (xtream_item baseUrl user pass) items of
                    Inl err \<Rightarrow> (Inl err, w1)
                  | Inr chs \<Rightarrow> (Inr (XtreamChannels chs), w1))
             | Some _ \<Rightarrow> (Inl (Error ''Invalid response from server''), w1)))"

subsection \<open>\<open>parseSimpleM3U\<close>\<close>

text \<open>The text behind the first occurrence of \<open>pat\<close> in a string.\<close>

fun find_after :: "string \<Rightarrow> string \<Rightarrow> string option" where
  "find_after pat [] = (if pat = [] then Some [] else None)"
| "find_after pat (c # cs) =
     (if startsWith (c # cs) pat then Some (drop (length pat) (c # cs)) else find_after pat cs)"

text \<open>
  \<open>line.match(/key="([^"]*)"/)\<close>, group 1. If the first occurrence of \<open>key="\<close> has no
  closing quote behind it, no later occurrence has one either, so the first decides.
\<close>

definition quoted_attr :: "string \<Rightarrow> string \<Rightarrow> string option" where
  "quoted_attr key line =
     (case find_after (key @ ''=\"'') line of
        None \<Rightarrow> None
      | Some r \<Rightarrow> if CHR ''\"'' \<in> set r then Some (takeWhile (\<lambda>c. c \<noteq> CHR ''\"'') r) else None)"

type_synonym simple_pending = "string \<times> string option \<times> string"

definition simple_line ::
  "simple_channel list \<times> simple_pending option \<Rightarrow> string \<Rightarrow>
   simple_channel list \<times> simple_pending option" where
  "simple_line st raw =
     (let line = trim raw in
      if startsWith line ''#EXTINF:'' then
        (fst st,
         Some (trim (last_piece CHR '','' line), quoted_attr ''tvg-logo'' line,
               (case quoted_attr ''group-title'' line of
                  Some g \<Rightarrow> g | None \<Rightarrow> ''Uncategorized'')))
      else if line \<noteq> [] \<and> \<not> startsWith line ''#'' \<and> snd st \<noteq> None then
        (case the (snd st) of
           (nm, lg, cat) \<Rightarrow>
             (fst st @ [\<lparr>s_name = nm, s_logo = lg, s_category = cat, s_url = line\<rparr>], None))
      else st)"

definition parseSimpleM3U :: "string \<Rightarrow> simple_channel list" where
  "parseSimpleM3U txt = fst (foldl simple_line ([], None) (split_nl txt))"

subsection \<open>\<open>loadM3UFromServer\<close>\<close>

definition m3u_request :: "string \<Rightarrow> string \<Rightarrow> string \<Rightarrow> string \<Rightarrow> request" where
  "m3u_request baseUrl path user pass =
     get_request (baseUrl @ path @ ''?username='' @ encodeURIComponent user @
                  ''&password='' @ encodeURIComponent pass @ ''&type=m3u_plus'')"

definition loadM3UFromServer ::
  "env \<Rightarrow> string \<Rightarrow> string \<Rightarrow> string \<Rightarrow> string \<Rightarrow> world \<Rightarrow> (error + channels) \<times> world" where
  "loadM3UFromServer e baseUrl path user pass w =
     (case fetch e (m3u_request baseUrl path user pass) w of
        (NoResponse, w1) \<Rightarrow> (Inl FetchFailed, w1)
      | (Response resp, w1) \<Rightarrow>
          if \<not> ok resp
          then (Inl (Error (''Server returned error: '' @ show_nat (status resp))), w1)
          else
            (case text_body resp of
               None \<Rightarrow> (Inl BodyFailed, w1)
             | Some m3uContent \<Rightarrow>
                 if m3u_parser_defined e then (Inr (ParsedChannels (parse m3uContent)), w1)
                 else (Inr (SimpleChannels (parseSimpleM3U m3uContent)), w1)))"

subsection \<open>\<open>loadChannels\<close>\<close>

definition base_url :: "server_info \<Rightarrow> string" where
  "base_url si = protocol si @ ''://'' @ ip si @ '':'' @ port si"

text \<open>\<open>serverInfo.apiPath || '/player_api.php'\<close>\<close>

definition api_path :: "server_info \<Rightarrow> string" where
  "api_path si = (if present (apiPath si) then the (apiPath si) else ''/player_api.php'')"

definition loadChannels :: "env \<Rightarrow> server_info \<Rightarrow> world \<Rightarrow> (error + channels) \<times> world" where
  "loadChannels e si w =
     (let baseUrl = base_url si; path = api_path si in
      if str_includes path ''player_api''
      then loadXtreamChannels e baseUrl path (username si) (password si) w
      else if str_includes path ''get.php'' \<or> str_includes path ''.m3u''
      then loadM3UFromServer e baseUrl path (username si) (password si) w
      else
        (case loadXtreamChannels e baseUrl ''/player_api.php'' (username si) (password si) w of
           (Inr chs, w1) \<Rightarrow> (Inr chs, w1)
         | (Inl err, w1) \<Rightarrow>
             loadM3UFromServer e baseUrl ''/get.php'' (username si) (password si) w1))"


section \<open>Notions used to state the properties of the effectful operations\<close>

text \<open>
  The outcome of every provider that \<open>searchSubtitles\<close> queries, in the order of the
  queries: the providers listing the language, each run in the state its predecessors
  left behind.
\<close>

fun provider_outcomes ::
  "env \<Rightarrow> string \<Rightarrow> string \<Rightarrow> subtitle_server list \<Rightarrow> world \<Rightarrow>
   (subtitle_server \<times> (error + subtitle list)) list" where
  "provider_outcomes e query language [] w = []"
| "provider_outcomes e query language (server # rest) w =
     (if language \<notin> set (languages server)
      then provider_outcomes e query language rest w
      else
        (case searchOnServer e server query language w of
           (Inr results, w1) \<Rightarrow>
             (server, Inr results) # provider_outcomes e query language rest w1
         | (Inl err, w1) \<Rightarrow>
             (server, Inl err) #
             provider_outcomes e query language rest (w1\<lparr>console := console w1 @ [err]\<rparr>)))"

text \<open>What an outcome adds to the aggregate: a failed search adds nothing.\<close>

definition contribution :: "error + subtitle list \<Rightarrow> subtitle list" where
  "contribution r = (case r of Inl err \<Rightarrow> [] | Inr results \<Rightarrow> results)"

text \<open>A network whose answer to a request does not depend on the earlier requests.\<close>

definition stateless_net :: "env \<Rightarrow> bool" where
  "stateless_net e \<longleftrightarrow> (\<forall>h rq. net e h rq = net e [] rq)"

text \<open>
  The (provider, language) pairs in the order in which the nested loops of
  \<open>autoLoadSubtitles\<close> examine them, and the loops run over such a list of pairs.
\<close>

definition pairs_of :: "subtitle_server list \<Rightarrow> (subtitle_server \<times> string) list" where
  "pairs_of servers = concat (map (\<lambda>server. map (Pair server) (languages server)) servers)"

fun auto_pairs ::
  "env \<Rightarrow> string \<Rightarrow> string \<Rightarrow> (subtitle_server \<times> string) list \<Rightarrow> world \<Rightarrow>
   saved_subtitle option \<times> world" where
  "auto_pairs e contentName cid [] w = (None, w)"
| "auto_pairs e contentName cid (p # ps) w =
     (case auto_try e contentName cid (snd p) w of
        (Some sub, w1) \<Rightarrow> (Some sub, w1)
      | (None, w1) \<Rightarrow> auto_pairs e contentName cid ps w1)"


section \<open>Example configurations\<close>

text \<open>A network on which every request fails, and the rest of the environment.\<close>

definition offline_env :: env where
  "offline_env =
     \<lparr>net = (\<lambda>h rq. NoResponse), clock = (\<lambda>h. ''2024-01-01T00:00:00.000Z''),
      setItem_ok = True, m3u_parser_defined = True\<rparr>"

definition local_ar :: subtitle where
  "local_ar =
     \<lparr>sub_id = Str ''l1'', sub_name = Str ''Local'', sub_language = Str ''ar'',
      downloads = Undefined, sub_url = Str ''http://files/l1.srt'', sub_format = Str ''srt'',
      sub_serverType = Str ''local'', serverInfo = None\<rparr>"

definition server_P1 :: subtitle_server where
  "server_P1 =
     \<lparr>server_name = ''P1'', serverType = ''opensubtitles'', apiUrl = None, apiKey = None,
      languages = [''en''], autoLoad = False\<rparr>"

definition server_P2 :: subtitle_server where
  "server_P2 =
     \<lparr>server_name = ''P2'', serverType = ''custom'', apiUrl = Some ''http://c/api'',
      apiKey = None, languages = [''ar'', ''en''], autoLoad = True\<rparr>"

definition server_P3 :: subtitle_server where
  "server_P3 =
     \<lparr>server_name = ''P3'', serverType = ''local'', apiUrl = None, apiKey = None,
      languages = [''ar''], autoLoad = False\<rparr>"

definition saved_en :: saved_subtitle where
  "saved_en =
     \<lparr>channelId = ''5'', saved_language = ''en'', saved_content = vtt_header @ ''Hello'',
      saved_format = ''vtt'', savedAt = ''2023-12-31T00:00:00.000Z''\<rparr>"

text \<open>Three providers, one local subtitle, and a subtitle saved for channel 5 in English.\<close>

definition example_world :: world where
  "example_world =
     \<lparr>requests = [],
      store = \<lparr>subtitle_servers = [server_P1, server_P2, server_P3],
               local_subtitles = [local_ar],
               channel_subtitles = (\<lambda>k. if k = (''5'', ''en'') then Some saved_en else None)\<rparr>,
      console = []\<rparr>"

text \<open>Nothing configured, nothing stored.\<close>

definition empty_world :: world where
  "empty_world =
     \<lparr>requests = [],
      store = \<lparr>subtitle_servers = [], local_subtitles = [], channel_subtitles = (\<lambda>k. None)\<rparr>,
      console = []\<rparr>"


text \<open>
  An answer on which the Xtream probe fails for one of the reasons the specification names:
  no response (network error), a non-2xx status, or a body that is not a JSON array (not
  decodable as JSON, or decoded to something else).
\<close>

definition xtream_failure :: "http_result \<Rightarrow> bool" where
  "xtream_failure r =
     (case r of
        NoResponse \<Rightarrow> True
      | Response resp \<Rightarrow>
          \<not> ok resp \<or> (case json_body resp of Some (Arr items) \<Rightarrow> False | _ \<Rightarrow> True))"

text \<open>
  A server that only serves an M3U playlist under \<open>get.php\<close> and does not answer anything
  else, and three descriptors of it: without an \<open>apiPath\<close>, with one that carries no hint,
  and with the Xtream hint.
\<close>

definition m3u_only_env :: env where
  "m3u_only_env =
     \<lparr>net = (\<lambda>h rq. if str_includes (req_url rq) ''get.php''
                     then Response \<lparr>ok = True, status = 200, json_body = None,
                            text_body = Some (''#EXTM3U'' @ [CHR 0x0A] @ ''#EXTINF:-1,One'' @
                                              [CHR 0x0A] @ ''http://s/1.ts'')\<rparr>
                     else NoResponse),
      clock = (\<lambda>h. ''2024-01-01T00:00:00.000Z''), setItem_ok = True,
      m3u_parser_defined = True\<rparr>"

definition descriptor_no_path :: server_info where
  "descriptor_no_path =
     \<lparr>protocol = ''http'', ip = ''tv.example'', port = ''80'', apiPath = None,
      username = ''u'', password = ''p''\<rparr>"

definition descriptor_other_path :: server_info where
  "descriptor_other_path = descriptor_no_path\<lparr>apiPath := Some ''/api''\<rparr>"

definition descriptor_xtream :: server_info where
  "descriptor_xtream = descriptor_no_path\<lparr>apiPath := Some ''/panel/player_api.php''\<rparr>"


section \<open>Verified properties\<close>

subsection \<open>Strings\<close>

lemma startsWith_prefix: "startsWith s p \<longleftrightarrow> prefix p s"
  unfolding startsWith_def
  by (metis append_eq_conv_conj prefix_def append_take_drop_id)

lemma indexOf_ge: "- 1 \<le> indexOf s p"
  by (induction s) (auto simp: Let_def)

lemma indexOf_sublist: "sublist p s \<Longrightarrow> indexOf s p \<noteq> - 1"
proof (induction s)
  case Nil
  then show ?case by simp
next
  case (Cons c cs)
  from Cons.prems have "prefix p (c # cs) \<or> sublist p cs"
    by (simp add: sublist_Cons_right)
  then show ?case
  proof
    assume "prefix p (c # cs)"
    then show ?thesis by (simp add: startsWith_prefix)
  next
    assume "sublist p cs"
    then have "indexOf cs p \<noteq> - 1" by (rule Cons.IH)
    moreover have "- 1 \<le> indexOf cs p" by (rule indexOf_ge)
    ultimately show ?thesis by (simp add: Let_def)
  qed
qed

lemma sublist_trim: "sublist (trim s) s"
proof -
  have "prefix (trim s) (dropWhile is_space s)"
    unfolding trim_def
    by (metis suffix_dropWhile suffix_to_prefix rev_rev_ident)
  then have "sublist (trim s) (dropWhile is_space s)" by (rule prefix_imp_sublist)
  moreover have "sublist (dropWhile is_space s) s"
    by (rule suffix_imp_sublist) (rule suffix_dropWhile)
  ultimately show ?thesis by (rule sublist_order.order_trans)
qed

lemma split_nl_nonempty: "split_nl s \<noteq> []"
  by (induction s) (auto split: list.splits)

lemma split_nl_hd_prefix: "split_nl s = h # t \<Longrightarrow> prefix h s"
proof (induction s arbitrary: h t)
  case Nil
  then show ?case by simp
next
  case (Cons c cs)
  then show ?case
    by (cases "split_nl cs") (auto split: if_splits)
qed

lemma split_nl_sublist: "l \<in> set (split_nl s) \<Longrightarrow> sublist l s"
proof (induction s arbitrary: l)
  case Nil
  then show ?case by simp
next
  case (Cons c cs)
  show ?case
  proof (cases "c = CHR 0x0A")
    case True
    with Cons.prems have "l = [] \<or> l \<in> set (split_nl cs)" by auto
    then show ?thesis using Cons.IH by (auto simp: sublist_Cons_right)
  next
    case False
    obtain h t where ht: "split_nl cs = h # t"
      using split_nl_nonempty [of cs] by (cases "split_nl cs") auto
    with False Cons.prems have "l = c # h \<or> l \<in> set t" by auto
    then show ?thesis
    proof
      assume l: "l = c # h"
      have "prefix h cs" using ht by (rule split_nl_hd_prefix)
      then show ?thesis using l by (simp add: sublist_Cons_right)
    next
      assume "l \<in> set t"
      then have "sublist l cs" using Cons.IH ht by simp
      then show ?thesis by (simp add: sublist_Cons_right)
    qed
  qed
qed

lemma split_nl_no_newline: "no_newline l \<Longrightarrow> split_nl l = [l]"
  by (induction l) (auto simp: no_newline_def)

lemma split_nl_append_nl:
  "no_newline l \<Longrightarrow> split_nl (l @ CHR 0x0A # r) = l # split_nl r"
  by (induction l) (auto simp: no_newline_def)

lemma split_join_nl:
  "ls \<noteq> [] \<Longrightarrow> \<forall>l\<in>set ls. no_newline l \<Longrightarrow> split_nl (join_nl ls) = ls"
proof (induction ls rule: join_nl.induct)
  case 1
  then show ?case by simp
next
  case (2 l)
  then show ?case by (simp add: split_nl_no_newline)
next
  case (3 l v va)
  then show ?case by (simp add: split_nl_append_nl)
qed

lemma startsWith_Nil: "startsWith s []"
  by (simp add: startsWith_def)

lemma startsWith_Cons:
  "startsWith s (c # p) \<longleftrightarrow> (case s of [] \<Rightarrow> False | x # t \<Rightarrow> x = c \<and> startsWith t p)"
  by (cases s) (auto simp: startsWith_prefix)

lemma startsWith_hash: "startsWith s (CHR ''#'' # p) \<Longrightarrow> startsWith s ''#''"
  by (cases s) (auto simp: startsWith_prefix)

lemma extinf_not_m3u: "startsWith s ''#EXTINF:'' \<Longrightarrow> \<not> startsWith s ''#EXTM3U''"
  by (auto simp: startsWith_Cons split: list.splits)

subsection \<open>The playlist parser\<close>

lemma parse_join_nl:
  assumes "\<forall>l\<in>set ls. no_newline l"
  shows "parse (join_nl ls) = parse_lines ls"
proof (cases "ls = []")
  case True
  then show ?thesis by (simp add: parse_def parse_lines_def parse_line_def trim_def)
next
  case False
  then show ?thesis using assms by (simp add: parse_def split_join_nl)
qed


lemma parse_line_no_extinf:
  "\<not> is_extinf_line l \<Longrightarrow> parse_line (chs, None) l = (chs, None)"
  by (simp add: parse_line_def is_extinf_line_def Let_def)

lemma foldl_parse_line_no_extinf:
  "\<forall>l\<in>set ls. \<not> is_extinf_line l \<Longrightarrow> foldl parse_line (chs, None) ls = (chs, None)"
  by (induction ls) (simp_all add: parse_line_no_extinf)

lemma parse_nonempty_extinf:
  assumes "parse content \<noteq> []"
  shows "\<exists>l\<in>set (split_nl content). is_extinf_line l"
proof (rule ccontr)
  assume "\<not> ?thesis"
  then have "foldl parse_line ([], None) (split_nl content) = ([], None)"
    by (intro foldl_parse_line_no_extinf) simp
  with assms show False by (simp add: parse_def parse_lines_def)
qed

lemma is_extinf_line_sublist: "is_extinf_line l \<Longrightarrow> sublist ''#EXTINF'' l"
proof -
  assume "is_extinf_line l"
  then have "prefix ''#EXTINF:'' (trim l)" by (simp add: is_extinf_line_def startsWith_prefix)
  moreover have "prefix ''#EXTINF'' ''#EXTINF:''" by simp
  ultimately have "prefix ''#EXTINF'' (trim l)" by (rule prefix_order.order_trans [rotated])
  then have "sublist ''#EXTINF'' (trim l)" by (rule prefix_imp_sublist)
  then show ?thesis using sublist_trim by (rule sublist_order.order_trans)
qed

text \<open>
  C8. Whenever \<open>parse\<close> returns at least one channel for a string, \<open>validate\<close> accepts that
  string: a channel is only emitted after a line whose trimmed form starts with
  \<open>#EXTINF:\<close>, and then the content contains \<open>#EXTINF\<close>.
\<close>

theorem validate_of_parse: "parse content \<noteq> [] \<Longrightarrow> validate content"
proof -
  assume "parse content \<noteq> []"
  then obtain l where l: "l \<in> set (split_nl content)" "is_extinf_line l"
    using parse_nonempty_extinf by blast
  have "sublist ''#EXTINF'' l" using l(2) by (rule is_extinf_line_sublist)
  moreover have "sublist l content" using l(1) by (rule split_nl_sublist)
  ultimately have s: "sublist ''#EXTINF'' content" by (rule sublist_order.order_trans)
  then have "indexOf content ''#EXTINF'' \<noteq> - 1" by (rule indexOf_sublist)
  moreover from s have "content \<noteq> []" by auto
  ultimately show ?thesis by (simp add: validate_def)
qed

theorem validate_of_parse_witness:
  "parse (''#EXTINF:-1,A'' @ [CHR 0x0A] @ ''u'') \<noteq> [] \<and>
   validate (''#EXTINF:-1,A'' @ [CHR 0x0A] @ ''u'')"
proof -
  have h: "parse (''#EXTINF:-1,A'' @ [CHR 0x0A] @ ''u'') \<noteq> []" by code_simp
  from h validate_of_parse [OF h] show ?thesis by simp
qed

lemma parse_line_url_no_pending:
  "is_url_line u \<Longrightarrow> parse_line (chs, None) u = (chs, None)"
  using startsWith_hash [of "trim u"]
  by (auto simp: parse_line_def is_url_line_def Let_def)

lemma parse_line_url_pending:
  "is_url_line u \<Longrightarrow> parse_line (chs, Some c) u = (chs @ [c\<lparr>url := trim u\<rparr>], None)"
  using startsWith_hash [of "trim u"]
  by (auto simp: parse_line_def is_url_line_def Let_def)

lemma extinf_nonempty: "is_extinf_line e \<Longrightarrow> trim e \<noteq> [] \<and> \<not> startsWith (trim e) ''#EXTM3U''"
  using extinf_not_m3u [of "trim e"] by (auto simp: is_extinf_line_def startsWith_def)

lemma parse_line_extinf:
  "is_extinf_line e \<Longrightarrow> parse_line (chs, cur) e = (chs, Some (parseExtInf (trim e)))"
  using extinf_nonempty [of e] by (simp add: parse_line_def Let_def is_extinf_line_def)

lemma parse_line_non_url:
  "\<not> is_url_line l \<Longrightarrow> fst (parse_line (chs, cur) l) = chs"
  by (auto simp: parse_line_def is_url_line_def Let_def split: option.splits)

lemma foldl_parse_line_non_url:
  "\<forall>l\<in>set ls. \<not> is_url_line l \<Longrightarrow> fst (foldl parse_line (chs, cur) ls) = chs"
proof (induction ls arbitrary: cur)
  case Nil
  then show ?case by simp
next
  case (Cons l ls)
  obtain chs' cur' where p: "parse_line (chs, cur) l = (chs', cur')" by force
  with Cons.prems parse_line_non_url [of l chs cur] have "chs' = chs" by simp
  with p Cons show ?case by simp
qed

text \<open>
  C6. A URL line met while no record is pending leaves the loop state as it is, so it adds
  no output record. A directive line after which no URL line comes adds no channel: the
  text with that line and everything after it parses to the same channels as the text
  before it. \<open>parse\<close> is a total function, so neither case is an error.
\<close>

theorem parse_drops_unpaired:
  assumes "is_url_line u" and "is_extinf_line e" and "\<forall>l\<in>set post. \<not> is_url_line l"
    and "\<forall>l\<in>set (pre @ e # post). no_newline l"
  shows "parse_line (chs, None) u = (chs, None) \<and>
         parse (join_nl (pre @ e # post)) = parse (join_nl pre)"
proof
  show "parse_line (chs, None) u = (chs, None)"
    using assms(1) by (rule parse_line_url_no_pending)
next
  obtain c1 p1 where s1: "foldl parse_line ([], None) pre = (c1, p1)" by force
  have "parse_lines (pre @ e # post) = c1"
    using s1 assms(2,3) by (simp add: parse_lines_def parse_line_extinf foldl_parse_line_non_url)
  moreover have "parse_lines pre = c1" using s1 by (simp add: parse_lines_def)
  moreover have "parse (join_nl (pre @ e # post)) = parse_lines (pre @ e # post)"
    using assms(4) by (intro parse_join_nl) 
  moreover have "parse (join_nl pre) = parse_lines pre"
    using assms(4) by (intro parse_join_nl) simp
  ultimately show "parse (join_nl (pre @ e # post)) = parse (join_nl pre)" by simp
qed

theorem parse_drops_unpaired_witness:
  "is_url_line ''http://x/1.ts'' \<and> is_extinf_line ''#EXTINF:-1,A'' \<and>
   list_all (\<lambda>l. \<not> is_url_line l) [''#EXTGRP:g'', []] \<and>
   list_all no_newline ([''#EXTINF:-1,B'', ''http://b''] @ ''#EXTINF:-1,A'' # [''#EXTGRP:g'', []]) \<and>
   parse_line ([], None) ''http://x/1.ts'' = ([], None) \<and>
   parse (join_nl ([''#EXTINF:-1,B'', ''http://b''] @ ''#EXTINF:-1,A'' # [''#EXTGRP:g'', []])) =
   parse (join_nl [''#EXTINF:-1,B'', ''http://b''])"
proof -
  have h1: "is_url_line ''http://x/1.ts''" by code_simp
  have h2: "is_extinf_line ''#EXTINF:-1,A''" by code_simp
  have h3: "list_all (\<lambda>l. \<not> is_url_line l) [''#EXTGRP:g'', []]" by code_simp
  have h4: "list_all no_newline
      ([''#EXTINF:-1,B'', ''http://b''] @ ''#EXTINF:-1,A'' # [''#EXTGRP:g'', []])" by code_simp
  from parse_drops_unpaired [OF h1 h2 h3 [unfolded list_all_iff] h4 [unfolded list_all_iff], of "[]"]
    h1 h2 h3 h4 show ?thesis by blast
qed

lemma parse_line_comment_no_pending:
  "is_comment_line c \<Longrightarrow> parse_line (chs, None) c = (chs, None)"
  by (simp add: parse_line_def is_comment_line_def Let_def)

lemma parse_line_comment_pending:
  "is_comment_line c \<Longrightarrow> \<exists>b. parse_line (chs, Some a) c = (chs, Some b) \<and> same_info a b"
  by (auto simp: parse_line_def is_comment_line_def Let_def same_info_def)

lemma foldl_comments_pending:
  "\<forall>c\<in>set cs. is_comment_line c \<Longrightarrow>
   \<exists>b. foldl parse_line (chs, Some a) cs = (chs, Some b) \<and> same_info a b"
proof (induction cs arbitrary: a)
  case Nil
  then show ?case by (simp add: same_info_def)
next
  case (Cons c cs)
  then obtain b where b: "parse_line (chs, Some a) c = (chs, Some b)" "same_info a b"
    using parse_line_comment_pending [of c chs a] by auto
  from Cons obtain d where "foldl parse_line (chs, Some b) cs = (chs, Some d)" "same_info b d"
    by force
  with b show ?case by (auto simp: same_info_def)
qed

lemma foldl_entry:
  assumes "wf_item (Entry e cs u)"
  shows "\<exists>ch. foldl parse_line (chs, None) (item_lines (Entry e cs u)) = (chs @ [ch], None) \<and>
              from_pair (e, u) ch"
proof -
  from assms have e: "is_extinf_line e" and u: "is_url_line u"
    and cs: "\<forall>c\<in>set cs. is_comment_line c"
    by (auto simp: list_all_iff)
  obtain b where b: "foldl parse_line (chs, Some (parseExtInf (trim e))) cs = (chs, Some b)"
      "same_info (parseExtInf (trim e)) b"
    using foldl_comments_pending [OF cs] by blast
  have "foldl parse_line (chs, None) (item_lines (Entry e cs u)) = (chs @ [b\<lparr>url := trim u\<rparr>], None)"
    using e u b(1) by (simp add: parse_line_extinf parse_line_url_pending)
  moreover have "from_pair (e, u) (b\<lparr>url := trim u\<rparr>)"
    using b(2) by (simp add: from_pair_def same_info_def)
  ultimately show ?thesis by blast
qed

lemma foldl_items:
  "list_all wf_item items \<Longrightarrow>
   \<exists>out. foldl parse_line (chs, None) (concat (map item_lines items)) = (chs @ out, None) \<and>
         list_all2 from_pair (entries items) out"
proof (induction items arbitrary: chs)
  case Nil
  then show ?case by simp
next
  case (Cons it items)
  show ?case
  proof (cases it)
    case (Comment c)
    with Cons.prems have "parse_line (chs, None) c = (chs, None)"
      by (simp add: parse_line_comment_no_pending)
    moreover from Cons.prems have "list_all wf_item items" by simp
    from Cons.IH [OF this, of chs] obtain out where
      "foldl parse_line (chs, None) (concat (map item_lines items)) = (chs @ out, None)"
      "list_all2 from_pair (entries items) out" by blast
    ultimately show ?thesis using Comment by auto
  next
    case (Entry e cs u)
    with Cons.prems obtain ch where ch:
      "foldl parse_line (chs, None) (item_lines (Entry e cs u)) = (chs @ [ch], None)"
      "from_pair (e, u) ch"
      using foldl_entry [of e cs u chs] by auto
    from Cons.prems have "list_all wf_item items" by simp
    from Cons.IH [OF this, of "chs @ [ch]"] obtain out where out:
      "foldl parse_line (chs @ [ch], None) (concat (map item_lines items)) = ((chs @ [ch]) @ out, None)"
      "list_all2 from_pair (entries items) out" by blast
    have "foldl parse_line (chs, None) (concat (map item_lines (it # items))) = (chs @ (ch # out), None)"
      using Entry ch(1) out(1) by (simp del: item_lines.simps)
    moreover have "list_all2 from_pair (entries (it # items)) (ch # out)"
      using Entry ch(2) out(2) by simp
    ultimately show ?thesis by blast
  qed
qed

lemma item_lines_no_newline:
  "wf_item it \<Longrightarrow> \<forall>l\<in>set (item_lines it). no_newline l"
  by (cases it) (auto simp: list_all_iff)

text \<open>The end-to-end example of the specification.\<close>

lemma parse_example:
  "parse (''#EXTM3U'' @ [CHR 0x0A] @
          ''#EXTINF:-1 tvg-logo=\"http://x/logo.png\" group-title=\"News\",BBC'' @ [CHR 0x0A] @
          ''http://stream/bbc.ts'' @ [CHR 0x0A]) =
   [\<lparr>name = ''BBC'', logo = ''http://x/logo.png'', category = ''News'',
     url = ''http://stream/bbc.ts'', tvgId = [], tvgName = []\<rparr>]"
  by code_simp

text \<open>
  C5. For a text made of well-formed \<open>#EXTINF:\<close> directive lines, each followed by its URL
  line, with comment lines anywhere between them, \<open>parse\<close> returns as many channels as
  there are pairs, and the channels stem from the pairs in the order of the text.
\<close>

theorem parse_pairs_in_order:
  assumes "list_all wf_item items"
  shows "length (parse (playlist_text items)) = length (entries items) \<and>
         list_all2 from_pair (entries items) (parse (playlist_text items))"
proof -
  have "\<forall>l\<in>set (concat (map item_lines items)). no_newline l"
    using assms item_lines_no_newline by (auto simp: list_all_iff)
  then have "parse (playlist_text items) = parse_lines (concat (map item_lines items))"
    unfolding playlist_text_def by (rule parse_join_nl)
  moreover obtain out where
    "foldl parse_line ([], None) (concat (map item_lines items)) = ([] @ out, None)"
    "list_all2 from_pair (entries items) out"
    using foldl_items [OF assms] by blast
  ultimately have "list_all2 from_pair (entries items) (parse (playlist_text items))"
    by (simp add: parse_lines_def)
  then show ?thesis by (auto dest: list_all2_lengthD)
qed

theorem parse_pairs_in_order_witness:
  "list_all wf_item
     [Comment ''#EXTM3U'', Entry ''#EXTINF:-1,One'' [''#EXTGRP:News''] ''http://a/1.ts'',
      Comment ''# note'', Entry ''  #EXTINF:-1 tvg-name=\"Two\",'' [] ''http://a/2.ts  ''] \<and>
   length (parse (playlist_text
     [Comment ''#EXTM3U'', Entry ''#EXTINF:-1,One'' [''#EXTGRP:News''] ''http://a/1.ts'',
      Comment ''# note'', Entry ''  #EXTINF:-1 tvg-name=\"Two\",'' [] ''http://a/2.ts  ''])) = 2 \<and>
   map url (parse (playlist_text
     [Comment ''#EXTM3U'', Entry ''#EXTINF:-1,One'' [''#EXTGRP:News''] ''http://a/1.ts'',
      Comment ''# note'', Entry ''  #EXTINF:-1 tvg-name=\"Two\",'' [] ''http://a/2.ts  ''])) =
     [''http://a/1.ts'', ''http://a/2.ts'']"
proof -
  let ?items = "[Comment ''#EXTM3U'', Entry ''#EXTINF:-1,One'' [''#EXTGRP:News''] ''http://a/1.ts'',
      Comment ''# note'', Entry ''  #EXTINF:-1 tvg-name=\"Two\",'' [] ''http://a/2.ts  '']"
  have h: "list_all wf_item ?items" by code_simp
  have t: "trim ''http://a/1.ts'' = ''http://a/1.ts''" "trim ''http://a/2.ts  '' = ''http://a/2.ts''"
    by code_simp+
  from parse_pairs_in_order [OF h] h show ?thesis
    by (auto simp: list_all2_Cons1 from_pair_def t)
qed

subsection \<open>The timestamp rewrite\<close>

lemma digit_not_sep: "is_digit c \<Longrightarrow> c \<noteq> CHR '','' \<and> c \<noteq> CHR ''.'' \<and> c \<noteq> CHR '':''"
  by (auto simp: is_digit_def)

lemma ts_at_length: "ts_at sep s \<Longrightarrow> 12 \<le> length s"
  by (simp add: ts_at_def)

lemma ts_at_Nil: "\<not> ts_at sep []"
  by (simp add: ts_at_def)

lemma length_replace_timestamps: "length (replace_timestamps s) = length s"
proof (induction s rule: replace_timestamps.induct)
  case 1
  then show ?case by simp
next
  case (2 c cs)
  then show ?case by (auto dest: ts_at_length)
qed

lemma less_12_cases:
  "i < 12 \<Longrightarrow> i = 0 \<or> i = 1 \<or> i = 2 \<or> i = 3 \<or> i = 4 \<or> i = 5 \<or> i = 6 \<or> i = 7 \<or> i = 8 \<or>
    i = 9 \<or> i = 10 \<or> i = (11::nat)"
  by arith

lemma ts_at_split:
  assumes "ts_at sep s"
  shows "s = take 8 s @ sep # take 3 (drop 9 s) @ drop 12 s"
proof -
  have l: "12 \<le> length s" and s8: "s ! 8 = sep" using assms by (simp_all add: ts_at_def)
  have "s = take 8 s @ drop 8 s" by simp
  also have "drop 8 s = s ! 8 # drop 9 s"
    using l Cons_nth_drop_Suc [of 8 s] by simp
  also have "drop 9 s = take 3 (drop 9 s) @ drop 12 s"
    using append_take_drop_id [of 3 "drop 9 s"] by (simp del: append_take_drop_id)
  finally show ?thesis using s8 by simp
qed

lemma comma_to_dot_refl: "list_all2 comma_to_dot xs xs"
  by (simp add: list_all2_refl comma_to_dot_def)

lemma replace_timestamps_rel: "list_all2 comma_to_dot s (replace_timestamps s)"
proof (induction s rule: replace_timestamps.induct)
  case 1
  then show ?case by simp
next
  case (2 c cs)
  show ?case
  proof (cases "ts_at CHR '','' (c # cs)")
    case True
    let ?s = "c # cs"
    have ih: "list_all2 comma_to_dot (drop 12 ?s) (replace_timestamps (drop 12 ?s))"
      using 2(1) [OF True] .
    have "list_all2 comma_to_dot (take 3 (drop 9 ?s) @ drop 12 ?s)
            (take 3 (drop 9 ?s) @ replace_timestamps (drop 12 ?s))"
      using comma_to_dot_refl ih by (rule list_all2_appendI)
    moreover have "comma_to_dot CHR '','' CHR ''.''" by (simp add: comma_to_dot_def)
    ultimately have "list_all2 comma_to_dot (CHR '','' # take 3 (drop 9 ?s) @ drop 12 ?s)
            (CHR ''.'' # take 3 (drop 9 ?s) @ replace_timestamps (drop 12 ?s))"
      by (rule list.rel_intros(2) [rotated])
    with comma_to_dot_refl
    have "list_all2 comma_to_dot (take 8 ?s @ CHR '','' # take 3 (drop 9 ?s) @ drop 12 ?s)
            (take 8 ?s @ CHR ''.'' # take 3 (drop 9 ?s) @ replace_timestamps (drop 12 ?s))"
      by (rule list_all2_appendI)
    then show ?thesis using ts_at_split [OF True] True by (simp del: take_Cons' drop_Cons')
  next
    case False
    then show ?thesis using 2(2) by (simp add: comma_to_dot_def)
  qed
qed

lemma rel_window:
  assumes "list_all2 comma_to_dot t t'" and "12 \<le> length t'" and "i < 12"
  shows "comma_to_dot (t ! i) (t' ! i)"
  using assms by (simp add: list_all2_conv_all_nth)

lemma comma_to_dot_back: "comma_to_dot a b \<Longrightarrow> b \<noteq> CHR ''.'' \<Longrightarrow> a = b"
  by (auto simp: comma_to_dot_def)

lemma comma_to_dot_fwd: "comma_to_dot a b \<Longrightarrow> a \<noteq> CHR '','' \<Longrightarrow> b = a"
  by (auto simp: comma_to_dot_def)

lemma ts_at_no_dot: "ts_at CHR '','' s \<Longrightarrow> i < 12 \<Longrightarrow> s ! i \<noteq> CHR ''.''"
  by (drule less_12_cases [of i]) (auto simp: ts_at_def dest: digit_not_sep)

lemma ts_at_no_comma: "ts_at CHR ''.'' s \<Longrightarrow> i < 12 \<Longrightarrow> s ! i \<noteq> CHR '',''"
  by (drule less_12_cases [of i]) (auto simp: ts_at_def dest: digit_not_sep)

lemma ts_at_cong:
  assumes "ts_at sep t" and "length t' = length t" and "\<And>i. i < 12 \<Longrightarrow> t' ! i = t ! i"
  shows "ts_at sep t'"
  using assms by (simp add: ts_at_def)

text \<open>A comma-form timestamp of the output was one of the input.\<close>

lemma comma_ts_back:
  assumes "list_all2 comma_to_dot t t'" and "ts_at CHR '','' t'"
  shows "ts_at CHR '','' t"
proof (rule ts_at_cong [OF assms(2)])
  show "length t = length t'" using assms(1) by (rule list_all2_lengthD)
next
  fix i :: nat assume i: "i < 12"
  have "comma_to_dot (t ! i) (t' ! i)"
    using assms(1) ts_at_length [OF assms(2)] i by (rule rel_window)
  then show "t ! i = t' ! i"
    using ts_at_no_dot [OF assms(2) i] by (rule comma_to_dot_back)
qed

text \<open>A dot-form timestamp of the input is one of the output.\<close>

lemma dot_ts_fwd:
  assumes "list_all2 comma_to_dot t t'" and "ts_at CHR ''.'' t"
  shows "ts_at CHR ''.'' t'"
proof (rule ts_at_cong [OF assms(2)])
  show "length t' = length t" using assms(1) by (simp add: list_all2_lengthD)
next
  fix i :: nat assume i: "i < 12"
  have l: "12 \<le> length t'"
    using list_all2_lengthD [OF assms(1)] ts_at_length [OF assms(2)] by simp
  have "comma_to_dot (t ! i) (t' ! i)" using assms(1) l i by (rule rel_window)
  then show "t' ! i = t ! i"
    using ts_at_no_comma [OF assms(2) i] by (rule comma_to_dot_fwd)
qed

text \<open>A dot-form timestamp of the output was a dot-form or a comma-form one of the input.\<close>

lemma dot_ts_back:
  assumes "list_all2 comma_to_dot t t'" and "ts_at CHR ''.'' t'"
  shows "ts_at CHR ''.'' t \<or> ts_at CHR '','' t"
proof -
  have l': "12 \<le> length t'" using assms(2) by (rule ts_at_length)
  have l: "length t = length t'" using assms(1) by (rule list_all2_lengthD)
  have r: "\<And>i. i < 12 \<Longrightarrow> comma_to_dot (t ! i) (t' ! i)"
    using assms(1) l' by (rule rel_window)
  have e: "\<And>i. i < 12 \<Longrightarrow> i \<noteq> 8 \<Longrightarrow> t ! i = t' ! i"
  proof -
    fix i :: nat assume i: "i < 12" "i \<noteq> 8"
    have "t' ! i \<noteq> CHR ''.''"
      using assms(2) i by - (drule less_12_cases [of i], auto simp: ts_at_def dest: digit_not_sep)
    with r [OF i(1)] show "t ! i = t' ! i" by (rule comma_to_dot_back)
  qed
  have "t ! 8 = CHR ''.'' \<or> t ! 8 = CHR '',''"
    using r [of 8] assms(2) by (auto simp: ts_at_def comma_to_dot_def)
  then show ?thesis using assms(2) l e by (auto simp: ts_at_def)
qed

text \<open>Two timestamps cannot start one to nine code units apart.\<close>

lemma ts_no_near_overlap:
  assumes "ts_at a s" and "a = CHR '','' \<or> a = CHR ''.''" and "0 < j" and "j < 10"
  shows "\<not> ts_at b (drop j s)"
proof -
  have l: "12 \<le> length s" using assms(1) by (rule ts_at_length)
  from assms(3,4) have "j = 1 \<or> j = 2 \<or> j = 3 \<or> j = 4 \<or> j = 5 \<or> j = 6 \<or> j = 7 \<or> j = 8 \<or> j = 9"
    by arith
  then show ?thesis
    using assms(1,2) l by (auto simp: ts_at_def dest: digit_not_sep)
qed

lemma no_overlap_iff:
  "no_overlap s \<longleftrightarrow>
     (\<forall>p. \<not> (ts_at CHR '','' (drop p s) \<and>
            (ts_at CHR '','' (drop (p + 10) s) \<or> ts_at CHR '','' (drop (p + 11) s))))"
proof
  assume n: "no_overlap s"
  show "\<forall>p. \<not> (ts_at CHR '','' (drop p s) \<and>
            (ts_at CHR '','' (drop (p + 10) s) \<or> ts_at CHR '','' (drop (p + 11) s)))"
  proof
    fix p
    show "\<not> (ts_at CHR '','' (drop p s) \<and>
            (ts_at CHR '','' (drop (p + 10) s) \<or> ts_at CHR '','' (drop (p + 11) s)))"
    proof (cases "p < length s")
      case True
      then have "p \<in> set [0..<length s]" by simp
      with n show ?thesis unfolding no_overlap_def list_all_iff by blast
    next
      case False
      then show ?thesis by (simp add: ts_at_def)
    qed
  qed
next
  assume "\<forall>p. \<not> (ts_at CHR '','' (drop p s) \<and>
            (ts_at CHR '','' (drop (p + 10) s) \<or> ts_at CHR '','' (drop (p + 11) s)))"
  then show "no_overlap s" unfolding no_overlap_def list_all_iff by blast
qed

lemma no_overlap_at:
  "no_overlap s \<Longrightarrow> ts_at CHR '','' (drop p s) \<Longrightarrow>
   \<not> ts_at CHR '','' (drop (p + 10) s) \<and> \<not> ts_at CHR '','' (drop (p + 11) s)"
  unfolding no_overlap_iff by blast

lemma no_overlap_drop:
  assumes "no_overlap s"
  shows "no_overlap (drop n s)"
  unfolding no_overlap_iff
proof
  fix p
  have e: "drop p (drop n s) = drop (p + n) s" by simp
  have a: "p + 10 + n = p + n + 10" "p + 11 + n = p + n + 11" by arith+
  have e': "drop (p + 10) (drop n s) = drop (p + n + 10) s"
    "drop (p + 11) (drop n s) = drop (p + n + 11) s"
    by (simp_all only: drop_drop a)
  show "\<not> (ts_at CHR '','' (drop p (drop n s)) \<and>
            (ts_at CHR '','' (drop (p + 10) (drop n s)) \<or> ts_at CHR '','' (drop (p + 11) (drop n s))))"
    unfolding e e' using no_overlap_at [OF assms, of "p + n"] by blast
qed

lemma no_overlap_head:
  assumes "no_overlap s" and "ts_at CHR '','' s" and "0 < p" and "p < 12"
  shows "\<not> ts_at CHR '','' (drop p s)"
proof (cases "p < 10")
  case True
  show ?thesis using assms(2) _ assms(3) True by (rule ts_no_near_overlap) simp
next
  case False
  with assms(4) have "p = 10 \<or> p = 11" by arith
  moreover have "\<not> ts_at CHR '','' (drop (0 + 10) s) \<and> \<not> ts_at CHR '','' (drop (0 + 11) s)"
    using assms(1) by (rule no_overlap_at) (simp add: assms(2))
  ultimately show ?thesis by auto
qed

lemma replace_match:
  "ts_at CHR '','' s \<Longrightarrow>
   replace_timestamps s =
     take 8 s @ CHR ''.'' # take 3 (drop 9 s) @ replace_timestamps (drop 12 s)"
  by (cases s) (simp_all add: ts_at_Nil)

lemma replace_no_match:
  "\<not> ts_at CHR '','' (c # cs) \<Longrightarrow> replace_timestamps (c # cs) = c # replace_timestamps cs"
  by simp


lemma replace_match_drop:
  assumes "ts_at CHR '','' s"
  shows "drop 12 (replace_timestamps s) = replace_timestamps (drop 12 s)"
proof -
  have "12 \<le> length s" using assms by (rule ts_at_length)
  then have "length (take 8 s @ CHR ''.'' # take 3 (drop 9 s)) = 12" by simp
  then have "drop 12 ((take 8 s @ CHR ''.'' # take 3 (drop 9 s)) @ replace_timestamps (drop 12 s))
      = replace_timestamps (drop 12 s)"
    by (metis append_eq_conv_conj)
  then show ?thesis using replace_match [OF assms] by simp
qed

lemma replace_match_head:
  assumes "ts_at CHR '','' s"
  shows "ts_at CHR ''.'' (replace_timestamps s)"
proof -
  have l: "12 \<le> length s" using assms by (rule ts_at_length)
  have n: "\<And>i. i < 12 \<Longrightarrow> replace_timestamps s ! i = (if i = 8 then CHR ''.'' else s ! i)"
    using l by (drule_tac less_12_cases) (auto simp: replace_match [OF assms] nth_append)
  show ?thesis
    using assms l unfolding ts_at_def by (simp add: n length_replace_timestamps)
qed


lemma replace_match_drop_ge:
  assumes "ts_at CHR '','' s"
  shows "drop (q + 12) (replace_timestamps s) = drop q (replace_timestamps (drop 12 s))"
proof -
  have "drop (q + 12) (replace_timestamps s) = drop q (drop 12 (replace_timestamps s))"
    by (simp only: drop_drop)
  then show ?thesis by (simp only: replace_match_drop [OF assms])
qed

text \<open>Without overlaps, no comma-form timestamp is left in the output.\<close>

lemma no_comma_ts_left:
  "no_overlap s \<Longrightarrow> \<not> ts_at CHR '','' (drop p (replace_timestamps s))"
proof (induction s arbitrary: p rule: replace_timestamps.induct)
  case 1
  then show ?case by (simp add: ts_at_Nil)
next
  case (2 c cs)
  let ?s = "c # cs"
  have rel: "list_all2 comma_to_dot (drop p ?s) (drop p (replace_timestamps ?s))"
    using replace_timestamps_rel by (rule list_all2_dropI)
  show ?case
  proof (cases "ts_at CHR '','' ?s")
    case True
    show ?thesis
    proof (cases "p < 12")
      case p12: True
      show ?thesis
      proof (cases "p = 0")
        case True
        have "ts_at CHR ''.'' (replace_timestamps ?s)"
          using \<open>ts_at CHR '','' ?s\<close> by (rule replace_match_head)
        then have "replace_timestamps ?s ! 8 = CHR ''.''" by (simp add: ts_at_def)
        then have "\<not> ts_at CHR '','' (replace_timestamps ?s)" by (simp add: ts_at_def)
        then show ?thesis using True by simp
      next
        case False
        then have "0 < p" by simp
        with "2.prems" \<open>ts_at CHR '','' ?s\<close> have "\<not> ts_at CHR '','' (drop p ?s)"
          using p12 by (rule no_overlap_head)
        then show ?thesis using comma_ts_back [OF rel] by blast
      qed
    next
      case False
      then obtain q where q: "p = q + 12" using le_Suc_ex [of 12 p] by (auto simp: add.commute)
      have "no_overlap (drop 12 ?s)" using "2.prems" by (rule no_overlap_drop)
      then have "\<not> ts_at CHR '','' (drop q (replace_timestamps (drop 12 ?s)))"
        by (rule "2.IH"(1) [OF True])
      then show ?thesis unfolding q replace_match_drop_ge [OF True] .
    qed
  next
    case False
    show ?thesis
    proof (cases p)
      case 0
      have "\<not> ts_at CHR '','' (drop p ?s)" using False 0 by simp
      then show ?thesis using comma_ts_back [OF rel] by blast
    next
      case (Suc q)
      have "drop 1 ?s = cs" by simp
      then have "no_overlap cs" using no_overlap_drop [OF "2.prems", of 1] by (simp only:)
      then have "\<not> ts_at CHR '','' (drop q (replace_timestamps cs))"
        by (rule "2.IH"(2) [OF False])
      then show ?thesis using False Suc by simp
    qed
  qed
qed

text \<open>Without overlaps, every comma-form timestamp of the input is rewritten.\<close>

lemma comma_ts_rewritten:
  "no_overlap s \<Longrightarrow> ts_at CHR '','' (drop p s) \<Longrightarrow> ts_at CHR ''.'' (drop p (replace_timestamps s))"
proof (induction s arbitrary: p rule: replace_timestamps.induct)
  case 1
  then show ?case by (simp add: ts_at_Nil)
next
  case (2 c cs)
  let ?s = "c # cs"
  show ?case
  proof (cases "ts_at CHR '','' ?s")
    case True
    show ?thesis
    proof (cases "p < 12")
      case p12: True
      have "p = 0"
      proof (rule ccontr)
        assume "p \<noteq> 0"
        then have "0 < p" by simp
        with "2.prems"(1) True have "\<not> ts_at CHR '','' (drop p ?s)"
          using p12 by (rule no_overlap_head)
        with "2.prems"(2) show False by blast
      qed
      then show ?thesis using replace_match_head [OF True] by simp
    next
      case False
      then obtain q where q: "p = q + 12" using le_Suc_ex [of 12 p] by (auto simp: add.commute)
      have "no_overlap (drop 12 ?s)" using "2.prems"(1) by (rule no_overlap_drop)
      moreover have "ts_at CHR '','' (drop q (drop 12 ?s))"
        using "2.prems"(2) unfolding q drop_drop .
      ultimately have "ts_at CHR ''.'' (drop q (replace_timestamps (drop 12 ?s)))"
        by (rule "2.IH"(1) [OF True])
      then show ?thesis unfolding q replace_match_drop_ge [OF True] .
    qed
  next
    case False
    show ?thesis
    proof (cases p)
      case 0
      then show ?thesis using False "2.prems"(2) by simp
    next
      case (Suc q)
      have "drop 1 ?s = cs" by simp
      then have "no_overlap cs" using no_overlap_drop [OF "2.prems"(1), of 1] by (simp only:)
      moreover have "ts_at CHR '','' (drop q cs)" using "2.prems"(2) Suc by simp
      ultimately have "ts_at CHR ''.'' (drop q (replace_timestamps cs))"
        by (rule "2.IH"(2) [OF False])
      then show ?thesis using False Suc by simp
    qed
  qed
qed

text \<open>A text without comma-form timestamps is a fixed point of the rewrite.\<close>

lemma replace_timestamps_id:
  "(\<And>p. \<not> ts_at CHR '','' (drop p t)) \<Longrightarrow> replace_timestamps t = t"
proof (induction t)
  case Nil
  then show ?case by simp
next
  case (Cons c cs)
  have "\<not> ts_at CHR '','' (c # cs)" using Cons.prems [of 0] by simp
  moreover have "replace_timestamps cs = cs"
  proof (rule Cons.IH)
    fix p show "\<not> ts_at CHR '','' (drop p cs)" using Cons.prems [of "Suc p"] by simp
  qed
  ultimately show ?case by simp
qed

lemma replace_non_digit:
  "\<not> is_digit c \<Longrightarrow> replace_timestamps (c # cs) = c # replace_timestamps cs"
  by (simp add: ts_at_def)

lemma replace_header: "replace_timestamps (vtt_header @ t) = vtt_header @ replace_timestamps t"
  by (simp add: vtt_header_def replace_non_digit is_digit_def del: replace_timestamps.simps)

lemma replace_match_nth:
  assumes "ts_at CHR '','' s" and "i < 12"
  shows "replace_timestamps s ! i = (if i = 8 then CHR ''.'' else s ! i)"
proof -
  have l: "12 \<le> length s" using assms(1) by (rule ts_at_length)
  show ?thesis
    using l assms(2) by (drule_tac less_12_cases) (auto simp: replace_match [OF assms(1)] nth_append)
qed

lemma replace_match_nth_ge:
  assumes "ts_at CHR '','' s"
  shows "replace_timestamps s ! (q + 12) = replace_timestamps (drop 12 s) ! q"
proof -
  have l: "12 \<le> length s" using assms by (rule ts_at_length)
  then have "q + 12 \<le> length (replace_timestamps s) \<or> length (replace_timestamps s) < q + 12"
    by arith
  let ?h = "take 8 s @ CHR ''.'' # take 3 (drop 9 s)"
  have len: "length ?h = 12" using l by simp
  have "(?h @ replace_timestamps (drop 12 s)) ! (length ?h + q) = replace_timestamps (drop 12 s) ! q"
    by (rule nth_append_length_plus)
  then have "(?h @ replace_timestamps (drop 12 s)) ! (12 + q) = replace_timestamps (drop 12 s) ! q"
    unfolding len .
  moreover have "12 + q = q + 12" by simp
  ultimately have "(?h @ replace_timestamps (drop 12 s)) ! (q + 12) = replace_timestamps (drop 12 s) ! q"
    by (simp only:)
  then show ?thesis using replace_match [OF assms] by simp
qed

text \<open>The rewrite changes a code unit only at offset 8 of a comma-form timestamp.\<close>

lemma changed_only_in_ts:
  "i < length s \<Longrightarrow> replace_timestamps s ! i \<noteq> s ! i \<Longrightarrow>
   8 \<le> i \<and> ts_at CHR '','' (drop (i - 8) s)"
proof (induction s arbitrary: i rule: replace_timestamps.induct)
  case 1
  then show ?case by simp
next
  case (2 c cs)
  define t where "t = c # cs"
  have ih: "\<And>q. ts_at CHR '','' t \<Longrightarrow> q < length (drop 12 t) \<Longrightarrow>
      replace_timestamps (drop 12 t) ! q \<noteq> drop 12 t ! q \<Longrightarrow>
      8 \<le> q \<and> ts_at CHR '','' (drop (q - 8) (drop 12 t))"
    using "2.IH"(1) unfolding t_def by blast
  have p1: "i < length t" and p2: "replace_timestamps t ! i \<noteq> t ! i"
    using "2.prems" unfolding t_def by blast+
  have "8 \<le> i \<and> ts_at CHR '','' (drop (i - 8) t)"
  proof (cases "ts_at CHR '','' t")
    case True
    have l: "12 \<le> length t" using True by (rule ts_at_length)
    show ?thesis
    proof (cases "i < 12")
      case i12: True
      have "i = 8" using p2 replace_match_nth [OF True i12] by (auto split: if_splits)
      then show ?thesis using True by simp
    next
      case False
      then obtain q where q: "i = q + 12" using le_Suc_ex [of 12 i] by (auto simp: add.commute)
      have "t ! (12 + q) = drop 12 t ! q" using l by simp
      moreover have "12 + q = q + 12" by simp
      ultimately have "t ! (q + 12) = drop 12 t ! q" by (simp only:)
      then have "replace_timestamps (drop 12 t) ! q \<noteq> drop 12 t ! q"
        using p2 unfolding q replace_match_nth_ge [OF True] by simp
      moreover have "q < length (drop 12 t)" using p1 q by simp
      ultimately have r: "8 \<le> q \<and> ts_at CHR '','' (drop (q - 8) (drop 12 t))"
        using ih [OF True] by blast
      have e: "q - 8 + 12 = i - 8" using r q by arith
      have "drop (q - 8) (drop 12 t) = drop (q - 8 + 12) t" by (simp only: drop_drop)
      then have "drop (q - 8) (drop 12 t) = drop (i - 8) t" unfolding e .
      then have "ts_at CHR '','' (drop (i - 8) t)" using r by (simp only:)
      moreover have "8 \<le> i" using q by simp
      ultimately show ?thesis by blast
    qed
  next
    case False
    then have nm: "\<not> ts_at CHR '','' (c # cs)" unfolding t_def .
    show ?thesis
    proof (cases i)
      case 0
      then show ?thesis using nm p2 unfolding t_def by simp
    next
      case (Suc j)
      have "j < length cs" "replace_timestamps cs ! j \<noteq> cs ! j"
        using p1 p2 nm Suc unfolding t_def by simp_all
      then have r: "8 \<le> j \<and> ts_at CHR '','' (drop (j - 8) cs)"
        using "2.IH"(2) [OF nm] by blast
      then have "i - 8 = Suc (j - 8)" using Suc by arith
      then show ?thesis using r Suc unfolding t_def by simp
    qed
  qed
  then show ?case unfolding t_def .
qed

text \<open>Without overlaps, the scan rewrites every comma-form timestamp and nothing else.\<close>

lemma replace_eq_rewrite_all:
  assumes "no_overlap s"
  shows "replace_timestamps s = rewrite_all s"
proof (rule nth_equalityI)
  show "length (replace_timestamps s) = length (rewrite_all s)"
    by (simp add: rewrite_all_def length_replace_timestamps)
next
  fix i assume "i < length (replace_timestamps s)"
  then have i: "i < length s" by (simp add: length_replace_timestamps)
  show "replace_timestamps s ! i = rewrite_all s ! i"
  proof (cases "8 \<le> i \<and> ts_at CHR '','' (drop (i - 8) s)")
    case True
    then have "ts_at CHR ''.'' (drop (i - 8) (replace_timestamps s))"
      using assms comma_ts_rewritten by blast
    then have "drop (i - 8) (replace_timestamps s) ! 8 = CHR ''.''" by (simp add: ts_at_def)
    moreover have "i - 8 \<le> length (replace_timestamps s)" using i by (simp add: length_replace_timestamps)
    moreover have "i - 8 + 8 = i" using True by arith
    ultimately have "replace_timestamps s ! i = CHR ''.''" by (simp add: nth_drop) 
    then show ?thesis using True i by (simp add: rewrite_all_def)
  next
    case False
    then have "replace_timestamps s ! i = s ! i" using changed_only_in_ts [OF i] by blast
    then show ?thesis using False i by (auto simp: rewrite_all_def)
  qed
qed

subsection \<open>Counting timestamps\<close>

lemma length_filter_disj:
  "(\<And>x. \<not> (P x \<and> Q x)) \<Longrightarrow>
   length (filter (\<lambda>x. P x \<or> Q x) xs) = length (filter P xs) + length (filter Q xs)"
  by (induction xs) auto

lemma ts_at_sep_unique: "ts_at a t \<Longrightarrow> ts_at b t \<Longrightarrow> a = b"
  by (simp add: ts_at_def)

lemma dot_ts_iff:
  assumes "no_overlap s"
  shows "ts_at CHR ''.'' (drop p (replace_timestamps s)) \<longleftrightarrow>
         ts_at CHR ''.'' (drop p s) \<or> ts_at CHR '','' (drop p s)"
proof -
  have rel: "list_all2 comma_to_dot (drop p s) (drop p (replace_timestamps s))"
    using replace_timestamps_rel by (rule list_all2_dropI)
  show ?thesis
    using dot_ts_back [OF rel] dot_ts_fwd [OF rel] comma_ts_rewritten [OF assms] by blast
qed

lemma count_dot_replace:
  assumes "no_overlap s"
  shows "count_ts CHR ''.'' (replace_timestamps s) = count_ts CHR '','' s + count_ts CHR ''.'' s"
proof -
  have "\<And>p. \<not> (ts_at CHR ''.'' (drop p s) \<and> ts_at CHR '','' (drop p s))"
    using ts_at_sep_unique by fastforce
  then have "length (filter (\<lambda>p. ts_at CHR ''.'' (drop p s) \<or> ts_at CHR '','' (drop p s)) [0..<length s])
      = length (filter (\<lambda>p. ts_at CHR ''.'' (drop p s)) [0..<length s]) +
        length (filter (\<lambda>p. ts_at CHR '','' (drop p s)) [0..<length s])"
    by (rule length_filter_disj)
  then show ?thesis
    unfolding count_ts_def length_replace_timestamps dot_ts_iff [OF assms] by simp
qed

lemma count_comma_replace:
  assumes "no_overlap s"
  shows "count_ts CHR '','' (replace_timestamps s) = 0"
  unfolding count_ts_def using no_comma_ts_left [OF assms] by simp

lemma count_ts_non_digit:
  assumes "\<not> is_digit c"
  shows "count_ts sep (c # t) = count_ts sep t"
proof -
  have u: "[0..<Suc (length t)] = 0 # map Suc [0..<length t]"
    by (simp add: upt_conv_Cons map_Suc_upt del: upt_Suc)
  have "\<not> ts_at sep (c # t)" using assms by (simp add: ts_at_def)
  then show ?thesis
    unfolding count_ts_def by (simp add: u filter_map o_def del: upt_Suc)
qed

lemma count_ts_header: "count_ts sep (vtt_header @ t) = count_ts sep t"
  by (simp add: vtt_header_def count_ts_non_digit is_digit_def)

lemma count_zero_no_ts:
  assumes "count_ts sep s = 0"
  shows "\<not> ts_at sep (drop p s)"
proof (cases "p < length s")
  case True
  then have "p \<in> set [0..<length s]" by simp
  moreover have "filter (\<lambda>p. ts_at sep (drop p s)) [0..<length s] = []"
    using assms unfolding count_ts_def by simp
  ultimately show ?thesis unfolding filter_empty_conv by blast
next
  case False
  then show ?thesis by (simp add: ts_at_Nil)
qed

subsection \<open>\<open>convertSRTtoVTT\<close>\<close>

text \<open>
  Two inputs on which the counts of the specification fail. In \<open>00:00:00,000:00:00,000\<close>
  two comma-form timestamps overlap (the second starts at the last but one digit of the
  first); the scan rewrites the first and resumes behind it, so the second stays in the
  output. In \<open>00:00:01,000 00:00:02.000\<close> a dot-form timestamp is already there, so the
  output holds two dot-form timestamps for one comma-form timestamp of the input.
\<close>

theorem convertSRTtoVTT_overlap_counterexample:
  "count_ts CHR '','' ''00:00:00,000:00:00,000'' = 2 \<and>
   count_ts CHR ''.'' (convertSRTtoVTT ''00:00:00,000:00:00,000'') = 1 \<and>
   count_ts CHR '','' (convertSRTtoVTT ''00:00:00,000:00:00,000'') = 1 \<and>
   count_ts CHR '','' ''00:00:01,000 00:00:02.000'' = 1 \<and>
   count_ts CHR ''.'' (convertSRTtoVTT ''00:00:01,000 00:00:02.000'') = 2"
  by code_simp

text \<open>
  C7 (amended). For every input text in which no two comma-form timestamps overlap, with
  \<open>k\<close> comma-form and \<open>d\<close> dot-form timestamps: the output is the fixed header followed
  by the input with the comma of every comma-form timestamp turned into a dot and every
  other code unit unchanged; it contains exactly \<open>k + d\<close> dot-form timestamps and no
  comma-form timestamp; and an input without comma-form timestamps comes back unchanged
  behind the header.
\<close>

theorem convertSRTtoVTT_no_overlap:
  assumes "no_overlap s"
  shows "convertSRTtoVTT s = vtt_header @ rewrite_all s \<and>
         count_ts CHR ''.'' (convertSRTtoVTT s) = count_ts CHR '','' s + count_ts CHR ''.'' s \<and>
         count_ts CHR '','' (convertSRTtoVTT s) = 0 \<and>
         (count_ts CHR '','' s = 0 \<longrightarrow> convertSRTtoVTT s = vtt_header @ s)"
proof (intro conjI impI)
  show "convertSRTtoVTT s = vtt_header @ rewrite_all s"
    unfolding convertSRTtoVTT_def using replace_eq_rewrite_all [OF assms] by simp
  show "count_ts CHR ''.'' (convertSRTtoVTT s) = count_ts CHR '','' s + count_ts CHR ''.'' s"
    unfolding convertSRTtoVTT_def count_ts_header by (rule count_dot_replace [OF assms])
  show "count_ts CHR '','' (convertSRTtoVTT s) = 0"
    unfolding convertSRTtoVTT_def count_ts_header by (rule count_comma_replace [OF assms])
next
  assume "count_ts CHR '','' s = 0"
  then have "replace_timestamps s = s"
    by (intro replace_timestamps_id count_zero_no_ts)
  then show "convertSRTtoVTT s = vtt_header @ s" by (simp add: convertSRTtoVTT_def)
qed

theorem convertSRTtoVTT_no_overlap_witness:
  "no_overlap ''00:00:01,000 --> 00:00:02,500 Hi 00:00:03.000'' \<and>
   convertSRTtoVTT ''00:00:01,000 --> 00:00:02,500 Hi 00:00:03.000'' =
     vtt_header @ ''00:00:01.000 --> 00:00:02.500 Hi 00:00:03.000'' \<and>
   count_ts CHR ''.'' (convertSRTtoVTT ''00:00:01,000 --> 00:00:02,500 Hi 00:00:03.000'') = 3 \<and>
   count_ts CHR '','' (convertSRTtoVTT ''00:00:01,000 --> 00:00:02,500 Hi 00:00:03.000'') = 0"
proof -
  let ?s = "''00:00:01,000 --> 00:00:02,500 Hi 00:00:03.000''"
  have h: "no_overlap ?s" by code_simp
  have r: "rewrite_all ?s = ''00:00:01.000 --> 00:00:02.500 Hi 00:00:03.000''" by code_simp
  have c: "count_ts CHR '','' ?s + count_ts CHR ''.'' ?s = 3" by code_simp
  from convertSRTtoVTT_no_overlap [OF h] h show ?thesis unfolding r c by blast
qed

text \<open>Two code units the scan changes lie at least twelve places apart.\<close>

lemma changes_apart:
  "i < j \<Longrightarrow> j < length s \<Longrightarrow> replace_timestamps s ! i \<noteq> s ! i \<Longrightarrow>
   replace_timestamps s ! j \<noteq> s ! j \<Longrightarrow> i + 12 \<le> j"
proof (induction s arbitrary: i j rule: replace_timestamps.induct)
  case 1
  then show ?case by simp
next
  case (2 c cs)
  define t where "t = c # cs"
  have ih: "\<And>a b. ts_at CHR '','' t \<Longrightarrow> a < b \<Longrightarrow> b < length (drop 12 t) \<Longrightarrow>
      replace_timestamps (drop 12 t) ! a \<noteq> drop 12 t ! a \<Longrightarrow>
      replace_timestamps (drop 12 t) ! b \<noteq> drop 12 t ! b \<Longrightarrow> a + 12 \<le> b"
    using "2.IH"(1) unfolding t_def by blast
  have p: "i < j" "j < length t" "replace_timestamps t ! i \<noteq> t ! i"
    "replace_timestamps t ! j \<noteq> t ! j"
    using "2.prems" unfolding t_def by blast+
  have "i + 12 \<le> j"
  proof (cases "ts_at CHR '','' t")
    case True
    have l: "12 \<le> length t" using True by (rule ts_at_length)
    have shift: "\<And>q. q + 12 < length t \<Longrightarrow> replace_timestamps t ! (q + 12) \<noteq> t ! (q + 12) \<Longrightarrow>
        replace_timestamps (drop 12 t) ! q \<noteq> drop 12 t ! q"
    proof -
      fix q assume "q + 12 < length t" and d: "replace_timestamps t ! (q + 12) \<noteq> t ! (q + 12)"
      have "t ! (12 + q) = drop 12 t ! q" using l by simp
      moreover have "12 + q = q + 12" by simp
      ultimately have "t ! (q + 12) = drop 12 t ! q" by (simp only:)
      then show "replace_timestamps (drop 12 t) ! q \<noteq> drop 12 t ! q"
        using d unfolding replace_match_nth_ge [OF True] by simp
    qed
    have j12: "12 \<le> j"
    proof (rule ccontr)
      assume "\<not> 12 \<le> j"
      then have j: "j < 12" and i: "i < 12" using p(1) by simp_all
      have "i = 8" using p(3) replace_match_nth [OF True i] by (auto split: if_splits)
      moreover have "j = 8" using p(4) replace_match_nth [OF True j] by (auto split: if_splits)
      ultimately show False using p(1) by simp
    qed
    then obtain b where b: "j = b + 12" using le_Suc_ex [of 12 j] by (auto simp: add.commute)
    have cb: "replace_timestamps (drop 12 t) ! b \<noteq> drop 12 t ! b"
      using shift [of b] p(2,4) b by simp
    have lb: "b < length (drop 12 t)" using p(2) b by simp
    show ?thesis
    proof (cases "i < 12")
      case i: True
      have "i = 8" using p(3) replace_match_nth [OF True i] by (auto split: if_splits)
      moreover have "8 \<le> b" using changed_only_in_ts [OF lb cb] by blast
      ultimately show ?thesis using b by simp
    next
      case False
      then obtain a where a: "i = a + 12" using le_Suc_ex [of 12 i] by (auto simp: add.commute)
      have "a + 12 < length t" using p(1,2) a by simp
      then have ca: "replace_timestamps (drop 12 t) ! a \<noteq> drop 12 t ! a"
        using shift [of a] p(3) a by simp
      have "a < b" using p(1) a b by simp
      then have "a + 12 \<le> b" using ih [OF True _ lb ca cb] by blast
      then show ?thesis using a b by simp
    qed
  next
    case False
    then have nm: "\<not> ts_at CHR '','' (c # cs)" unfolding t_def .
    have "i \<noteq> 0"
    proof
      assume "i = 0"
      then show False using p(3) nm unfolding t_def by simp
    qed
    then obtain a where a: "i = Suc a" by (cases i) simp_all
    obtain b where b: "j = Suc b" using p(1) by (cases j) simp_all
    have "a < b" "b < length cs" "replace_timestamps cs ! a \<noteq> cs ! a"
      "replace_timestamps cs ! b \<noteq> cs ! b"
      using p nm a b unfolding t_def by simp_all
    then have "a + 12 \<le> b" using "2.IH"(2) [OF nm] by blast
    then show ?thesis using a b by simp
  qed
  then show ?case .
qed

lemma ts_at_comma_only_8: "ts_at sep t \<Longrightarrow> i < 12 \<Longrightarrow> i \<noteq> 8 \<Longrightarrow> t ! i \<noteq> CHR '',''"
  by (drule less_12_cases [of i]) (auto simp: ts_at_def dest: digit_not_sep)

text \<open>A comma-form timestamp whose comma the scan left alone is still in the output.\<close>

lemma comma_ts_kept:
  assumes "ts_at CHR '','' (drop p s)" and "replace_timestamps s ! (p + 8) = s ! (p + 8)"
  shows "ts_at CHR '','' (drop p (replace_timestamps s))"
proof (rule ts_at_cong [OF assms(1)])
  show "length (drop p (replace_timestamps s)) = length (drop p s)"
    by (simp add: length_replace_timestamps)
next
  fix i :: nat assume i: "i < 12"
  have l: "12 \<le> length (drop p s)" using assms(1) by (rule ts_at_length)
  then have pl: "p \<le> length s" by simp
  have rel: "list_all2 comma_to_dot (drop p s) (drop p (replace_timestamps s))"
    using replace_timestamps_rel by (rule list_all2_dropI)
  have l': "12 \<le> length (drop p (replace_timestamps s))"
    using l by (simp add: length_replace_timestamps)
  have r: "comma_to_dot (drop p s ! i) (drop p (replace_timestamps s) ! i)"
    using rel l' i by (rule rel_window)
  show "drop p (replace_timestamps s) ! i = drop p s ! i"
  proof (cases "i = 8")
    case True
    then show ?thesis using assms(2) pl by (simp add: length_replace_timestamps)
  next
    case False
    then have "drop p s ! i \<noteq> CHR '',''"
      using assms(1) i by (rule ts_at_comma_only_8 [rotated 2])
    with r show ?thesis by (rule comma_to_dot_fwd)
  qed
qed

text \<open>With an overlap, a comma-form timestamp survives the rewrite.\<close>

lemma overlap_leaves_comma_ts:
  assumes "\<not> no_overlap s"
  shows "\<exists>q. ts_at CHR '','' (drop q (replace_timestamps s))"
proof -
  from assms obtain p d where p: "ts_at CHR '','' (drop p s)" and d: "d = 10 \<or> d = 11"
    and p': "ts_at CHR '','' (drop (p + d) s)"
    unfolding no_overlap_iff by blast
  have l: "p + d + 8 < length s" using ts_at_length [OF p'] by simp
  show ?thesis
  proof (cases "replace_timestamps s ! (p + 8) = s ! (p + 8)")
    case True
    with p show ?thesis using comma_ts_kept by blast
  next
    case False
    have "replace_timestamps s ! (p + d + 8) = s ! (p + d + 8)"
    proof (rule ccontr)
      assume "replace_timestamps s ! (p + d + 8) \<noteq> s ! (p + d + 8)"
      moreover have "p + 8 < p + d + 8" using d by auto
      ultimately have "p + 8 + 12 \<le> p + d + 8" by (rule changes_apart [OF _ l False, rotated])
      then show False using d by auto
    qed
    with p' show ?thesis using comma_ts_kept by blast
  qed
qed

text \<open>A text holding a comma-form timestamp is changed by the rewrite.\<close>

lemma replace_changes:
  "ts_at CHR '','' (drop q t) \<Longrightarrow> replace_timestamps t \<noteq> t"
proof (induction t arbitrary: q rule: replace_timestamps.induct)
  case 1
  then show ?case by (simp add: ts_at_Nil)
next
  case (2 c cs)
  show ?case
  proof (cases "ts_at CHR '','' (c # cs)")
    case True
    have "replace_timestamps (c # cs) ! 8 = CHR ''.''"
      using replace_match_nth [OF True, of 8] by simp
    moreover have "(c # cs) ! 8 = CHR '',''" using True by (simp add: ts_at_def)
    ultimately have ne: "replace_timestamps (c # cs) ! 8 \<noteq> (c # cs) ! 8" by simp
    show ?thesis
    proof
      assume "replace_timestamps (c # cs) = c # cs"
      then have "replace_timestamps (c # cs) ! 8 = (c # cs) ! 8" by (simp only:)
      with ne show False by blast
    qed
  next
    case False
    then obtain q' where "q = Suc q'" using "2.prems" by (cases q) simp_all
    then have "ts_at CHR '','' (drop q' cs)" using "2.prems" by simp
    then have "replace_timestamps cs \<noteq> cs" using "2.IH"(2) [OF False] by blast
    then show ?thesis using False by simp
  qed
qed

lemma replace_twice_iff:
  "replace_timestamps (replace_timestamps s) = replace_timestamps s \<longleftrightarrow> no_overlap s"
proof
  assume "no_overlap s"
  then show "replace_timestamps (replace_timestamps s) = replace_timestamps s"
    by (intro replace_timestamps_id no_comma_ts_left)
next
  assume a: "replace_timestamps (replace_timestamps s) = replace_timestamps s"
  show "no_overlap s"
  proof (rule ccontr)
    assume "\<not> no_overlap s"
    then obtain q where "ts_at CHR '','' (drop q (replace_timestamps s))"
      using overlap_leaves_comma_ts by blast
    then have "replace_timestamps (replace_timestamps s) \<noteq> replace_timestamps s"
      by (rule replace_changes)
    with a show False by blast
  qed
qed

text \<open>
  On the overlapping input the first conversion leaves a comma-form timestamp, which the
  second conversion rewrites: the second pass changes more than the header.
\<close>

theorem convertSRTtoVTT_twice_counterexample:
  "convertSRTtoVTT (convertSRTtoVTT ''00:00:00,000:00:00,000'') \<noteq>
   vtt_header @ convertSRTtoVTT ''00:00:00,000:00:00,000''"
  by code_simp

text \<open>
  C10 (amended). For every string in which no two comma-form timestamps overlap, converting
  twice yields the fixed header prepended to the result of converting once; and only for
  those: with an overlap, the second conversion also rewrites a timestamp that the first
  one left in comma form.
\<close>

theorem convertSRTtoVTT_twice:
  "convertSRTtoVTT (convertSRTtoVTT s) = vtt_header @ convertSRTtoVTT s \<longleftrightarrow> no_overlap s"
proof -
  have "convertSRTtoVTT (convertSRTtoVTT s) =
      vtt_header @ vtt_header @ replace_timestamps (replace_timestamps s)"
    by (simp add: convertSRTtoVTT_def replace_header)
  moreover have "vtt_header @ convertSRTtoVTT s = vtt_header @ vtt_header @ replace_timestamps s"
    by (simp add: convertSRTtoVTT_def)
  ultimately show ?thesis using replace_twice_iff [of s] by simp
qed

theorem convertSRTtoVTT_twice_witness:
  "no_overlap ''00:00:01,000 --> 00:00:02,500'' \<and>
   convertSRTtoVTT (convertSRTtoVTT ''00:00:01,000 --> 00:00:02,500'') =
     vtt_header @ vtt_header @ ''00:00:01.000 --> 00:00:02.500''"
proof -
  let ?s = "''00:00:01,000 --> 00:00:02,500''"
  have h: "no_overlap ?s" by code_simp
  have c: "convertSRTtoVTT ?s = vtt_header @ ''00:00:01.000 --> 00:00:02.500''" by code_simp
  from convertSRTtoVTT_twice [of ?s] h show ?thesis unfolding c by blast
qed

subsection \<open>The subtitle aggregate\<close>

lemma search_loop_outcomes:
  "fst (search_loop e q l servers acc w) =
   acc @ concat (map (contribution \<circ> snd) (provider_outcomes e q l servers w))"
proof (induction servers arbitrary: acc w)
  case Nil
  then show ?case by simp
next
  case (Cons server rest)
  show ?case
  proof (cases "l \<in> set (languages server)")
    case False
    then show ?thesis using Cons.IH by simp
  next
    case True
    obtain r w1 where r: "searchOnServer e server q l w = (r, w1)" by force
    show ?thesis
    proof (cases r)
      case (Inl err)
      then show ?thesis using True r Cons.IH by (simp add: contribution_def)
    next
      case (Inr results)
      then show ?thesis using True r Cons.IH by (simp add: contribution_def)
    qed
  qed
qed

lemma provider_outcomes_servers:
  "map fst (provider_outcomes e q l servers w) = filter (\<lambda>s. l \<in> set (languages s)) servers"
proof (induction servers arbitrary: w)
  case Nil
  then show ?case by simp
next
  case (Cons server rest)
  obtain r w1 where r: "searchOnServer e server q l w = (r, w1)" by force
  show ?case using Cons.IH r by (cases r) simp_all
qed

lemma fetch_stateless:
  "stateless_net e \<Longrightarrow> fst (fetch e rq w) = net e [] rq"
  by (simp add: fetch_def stateless_net_def)

lemma store_fetch: "store (snd (fetch e rq w)) = store w"
  by (simp add: fetch_def)

lemma searchOnServer_stateless:
  assumes "stateless_net e" and "store w' = store w"
  shows "fst (searchOnServer e s q l w') = fst (searchOnServer e s q l w)"
proof -
  have n: "\<And>rq. net e (requests w') rq = net e (requests w) rq"
    using assms(1) unfolding stateless_net_def by metis
  show ?thesis
    unfolding searchOnServer_def searchOpenSubtitles_def searchCustomAPI_def fetch_def
      getLocalSubtitles_def
    by (simp add: n assms(2) split: http_result.splits option.splits sum.splits jsval.splits)
qed

lemma store_searchOnServer: "store (snd (searchOnServer e s q l w)) = store w"
  unfolding searchOnServer_def searchOpenSubtitles_def searchCustomAPI_def fetch_def
  by (simp split: http_result.splits option.splits sum.splits jsval.splits)

lemma provider_outcomes_stateless:
  assumes "stateless_net e"
  shows "store w = store w0 \<Longrightarrow>
    provider_outcomes e q l servers w =
    map (\<lambda>s. (s, fst (searchOnServer e s q l w0))) (filter (\<lambda>s. l \<in> set (languages s)) servers)"
proof (induction servers arbitrary: w)
  case Nil
  then show ?case by simp
next
  case (Cons server rest)
  obtain r w1 where r: "searchOnServer e server q l w = (r, w1)" by force
  have r0: "fst (searchOnServer e server q l w0) = r"
    using searchOnServer_stateless [OF assms, of w w0 server q l] Cons.prems r by simp
  have s1: "store w1 = store w0"
    using store_searchOnServer [of e server q l w] r Cons.prems by simp
  show ?case
  proof (cases "l \<in> set (languages server)")
    case False
    then show ?thesis using Cons by simp
  next
    case True
    show ?thesis
    proof (cases r)
      case (Inl err)
      have "store (w1\<lparr>console := console w1 @ [err]\<rparr>) = store w0" using s1 by simp
      from Cons.IH [OF this] show ?thesis using True r r0 Inl by simp
    next
      case (Inr results)
      from Cons.IH [OF s1] show ?thesis using True r r0 Inr by simp
    qed
  qed
qed

lemma search_loop_no_match:
  "\<forall>s\<in>set servers. l \<notin> set (languages s) \<Longrightarrow> search_loop e q l servers acc w = (acc, w)"
  by (induction servers) simp_all

text \<open>
  The failures the specification names make the search of a provider throw: a missing API
  key of an \<open>opensubtitles\<close> provider, and for a provider that sends a request, no response,
  a non-2xx status, or a body that is not decodable.
\<close>

lemma searchOnServer_throws:
  "serverType s = ''opensubtitles'' \<Longrightarrow> \<not> present (apiKey s) \<Longrightarrow>
     searchOnServer e s q l w = (Inl (Error ''OpenSubtitles requires an API key''), w)"
  "serverType s = ''opensubtitles'' \<Longrightarrow> present (apiKey s) \<Longrightarrow>
     net e (requests w) (os_search_request s q l) = NoResponse \<Longrightarrow>
     fst (searchOnServer e s q l w) = Inl FetchFailed"
  "serverType s = ''opensubtitles'' \<Longrightarrow> present (apiKey s) \<Longrightarrow>
     net e (requests w) (os_search_request s q l) = Response resp \<Longrightarrow> \<not> ok resp \<Longrightarrow>
     fst (searchOnServer e s q l w) =
       Inl (Error (''OpenSubtitles API error: '' @ show_nat (status resp)))"
  "serverType s = ''opensubtitles'' \<Longrightarrow> present (apiKey s) \<Longrightarrow>
     net e (requests w) (os_search_request s q l) = Response resp \<Longrightarrow> ok resp \<Longrightarrow>
     json_body resp = None \<Longrightarrow> fst (searchOnServer e s q l w) = Inl BodyFailed"
  "serverType s = ''custom'' \<Longrightarrow>
     net e (requests w) (custom_search_request s q l) = NoResponse \<Longrightarrow>
     fst (searchOnServer e s q l w) = Inl FetchFailed"
  "serverType s = ''custom'' \<Longrightarrow>
     net e (requests w) (custom_search_request s q l) = Response resp \<Longrightarrow> \<not> ok resp \<Longrightarrow>
     fst (searchOnServer e s q l w) = Inl (Error (''Custom API error: '' @ show_nat (status resp)))"
  "serverType s = ''custom'' \<Longrightarrow>
     net e (requests w) (custom_search_request s q l) = Response resp \<Longrightarrow> ok resp \<Longrightarrow>
     json_body resp = None \<Longrightarrow> fst (searchOnServer e s q l w) = Inl BodyFailed"
  by (simp_all add: searchOnServer_def searchOpenSubtitles_def searchCustomAPI_def fetch_def)

text \<open>
  The empty provider list: the concatenation of the providers' results is the empty list,
  but \<open>searchSubtitles\<close> does not return it. The guard \<open>servers.length === 0\<close> throws.
\<close>

theorem searchSubtitles_empty_list_counterexample:
  "getSubtitleServers empty_world = [] \<and>
   concat (map (contribution \<circ> snd)
     (provider_outcomes offline_env ''film'' ''ar'' (getSubtitleServers empty_world)
        empty_world)) = [] \<and>
   fst (searchSubtitles offline_env ''film'' ''ar'' empty_world) =
     Inl (Error ''No subtitle servers configured'') \<and>
   fst (searchSubtitles offline_env ''film'' ''ar'' empty_world) \<noteq>
     Inr (concat (map (contribution \<circ> snd)
       (provider_outcomes offline_env ''film'' ''ar'' (getSubtitleServers empty_world)
          empty_world)))"
  by code_simp

text \<open>
  C1 (amended). For every non-empty provider list and every (query, language) search,
  \<open>searchSubtitles\<close> does not throw: it returns the concatenation, in configured order, of
  what the providers listing the requested language returned; providers not listing it are
  not queried, and a provider whose search throws (whatever the error: no response, a
  non-2xx status, an undecodable body, a missing API key, a malformed item) adds nothing
  and does not stop the loop. On a network whose answers do not depend on earlier requests,
  the result is the concatenation of the providers' own results, each taken on its own.
\<close>

theorem searchSubtitles_aggregate:
  assumes "getSubtitleServers w \<noteq> []"
  shows "fst (searchSubtitles e q l w) =
           Inr (concat (map (contribution \<circ> snd)
                  (provider_outcomes e q l (getSubtitleServers w) w))) \<and>
         map fst (provider_outcomes e q l (getSubtitleServers w) w) =
           filter (\<lambda>s. l \<in> set (languages s)) (getSubtitleServers w) \<and>
         (stateless_net e \<longrightarrow>
            fst (searchSubtitles e q l w) =
              Inr (concat (map (\<lambda>s. contribution (fst (searchOnServer e s q l w)))
                     (filter (\<lambda>s. l \<in> set (languages s)) (getSubtitleServers w)))))"
proof -
  obtain res w1 where sl: "search_loop e q l (getSubtitleServers w) [] w = (res, w1)" by force
  have "res = concat (map (contribution \<circ> snd) (provider_outcomes e q l (getSubtitleServers w) w))"
    using search_loop_outcomes [of e q l "getSubtitleServers w" "[]" w] sl by simp
  then have a: "fst (searchSubtitles e q l w) =
      Inr (concat (map (contribution \<circ> snd) (provider_outcomes e q l (getSubtitleServers w) w)))"
    using assms sl by (simp add: searchSubtitles_def Let_def)
  have b: "map fst (provider_outcomes e q l (getSubtitleServers w) w) =
      filter (\<lambda>s. l \<in> set (languages s)) (getSubtitleServers w)"
    by (rule provider_outcomes_servers)
  have c: "fst (searchSubtitles e q l w) =
      Inr (concat (map (\<lambda>s. contribution (fst (searchOnServer e s q l w)))
             (filter (\<lambda>s. l \<in> set (languages s)) (getSubtitleServers w))))"
    if "stateless_net e"
    unfolding a using provider_outcomes_stateless [OF that refl, of q l "getSubtitleServers w" w]
    by (simp add: o_def)
  from a b c show ?thesis by blast
qed

theorem searchSubtitles_aggregate_witness:
  "getSubtitleServers example_world \<noteq> [] \<and>
   map (\<lambda>p. (server_name (fst p), snd p))
     (provider_outcomes offline_env ''film'' ''ar'' (getSubtitleServers example_world)
        example_world) = [(''P2'', Inl FetchFailed), (''P3'', Inr [local_ar])] \<and>
   fst (searchSubtitles offline_env ''film'' ''ar'' example_world) = Inr [local_ar]"
proof -
  have h: "getSubtitleServers example_world \<noteq> []" by code_simp
  have po: "provider_outcomes offline_env ''film'' ''ar'' (getSubtitleServers example_world)
      example_world = [(server_P2, Inl FetchFailed), (server_P3, Inr [local_ar])]"
    by code_simp
  have n: "server_name server_P2 = ''P2''" "server_name server_P3 = ''P3''"
    by (simp_all add: server_P2_def server_P3_def)
  from searchSubtitles_aggregate [OF h, of offline_env "''film''" "''ar''"] h
  show ?thesis unfolding po by (simp add: contribution_def n)
qed

text \<open>
  C9. With no provider configured at all, \<open>searchSubtitles\<close> throws
  \<open>No subtitle servers configured\<close>. With at least one provider configured and none of
  them listing the requested language, it returns the empty list, without an error and
  without any effect.
\<close>

theorem searchSubtitles_none_vs_no_match:
  "(getSubtitleServers w = [] \<longrightarrow>
      searchSubtitles e q l w = (Inl (Error ''No subtitle servers configured''), w)) \<and>
   (getSubtitleServers w \<noteq> [] \<and> (\<forall>s\<in>set (getSubtitleServers w). l \<notin> set (languages s)) \<longrightarrow>
      searchSubtitles e q l w = (Inr [], w))"
proof (intro conjI impI)
  assume "getSubtitleServers w = []"
  then show "searchSubtitles e q l w = (Inl (Error ''No subtitle servers configured''), w)"
    by (simp add: searchSubtitles_def)
next
  assume a: "getSubtitleServers w \<noteq> [] \<and> (\<forall>s\<in>set (getSubtitleServers w). l \<notin> set (languages s))"
  then have "search_loop e q l (getSubtitleServers w) [] w = ([], w)"
    by (intro search_loop_no_match) blast
  then show "searchSubtitles e q l w = (Inr [], w)"
    using a by (simp add: searchSubtitles_def Let_def)
qed

theorem searchSubtitles_none_vs_no_match_witness:
  "searchSubtitles offline_env ''film'' ''fr'' empty_world =
     (Inl (Error ''No subtitle servers configured''), empty_world) \<and>
   getSubtitleServers example_world \<noteq> [] \<and>
   list_all (\<lambda>s. ''fr'' \<notin> set (languages s)) (getSubtitleServers example_world) \<and>
   searchSubtitles offline_env ''film'' ''fr'' example_world = (Inr [], example_world)"
proof -
  have h0: "getSubtitleServers empty_world = []" by code_simp
  have h1: "getSubtitleServers example_world \<noteq> []" by code_simp
  have h2: "list_all (\<lambda>s. ''fr'' \<notin> set (languages s)) (getSubtitleServers example_world)"
    by code_simp
  from searchSubtitles_none_vs_no_match [of empty_world offline_env "''film''" "''fr''"]
    searchSubtitles_none_vs_no_match [of example_world offline_env "''film''" "''fr''"]
    h0 h1 h2 show ?thesis unfolding list_all_iff by blast
qed

subsection \<open>Auto-load\<close>

lemma store_search_loop: "store (snd (search_loop e q l servers acc w)) = store w"
proof (induction servers arbitrary: acc w)
  case Nil
  then show ?case by simp
next
  case (Cons server rest)
  obtain r w1 where r: "searchOnServer e server q l w = (r, w1)" by force
  then have s1: "store w1 = store w" using store_searchOnServer [of e server q l w] by simp
  show ?case using r s1 Cons.IH by (cases r) simp_all
qed

lemma store_searchSubtitles: "store (snd (searchSubtitles e q l w)) = store w"
  by (simp add: searchSubtitles_def Let_def store_search_loop split: prod.splits)
    (metis store_search_loop snd_conv)

lemma store_downloadFromURL: "store (snd (downloadFromURL e u w)) = store w"
  unfolding downloadFromURL_def fetch_def
  by (simp split: http_result.splits option.splits)

lemma store_downloadSubtitle: "store (snd (downloadSubtitle e sub w)) = store w"
proof -
  have "store (snd (downloadFromOpenSubtitles e sub w)) = store w"
    unfolding downloadFromOpenSubtitles_def fetch_def
    by (simp add: store_downloadFromURL split: http_result.splits option.splits sum.splits)
  then show ?thesis by (simp add: downloadSubtitle_def store_downloadFromURL)
qed

lemma auto_try_saved:
  "getSavedSubtitle w cid lang = Some sub \<Longrightarrow> auto_try e cn cid lang w = (Some sub, w)"
  by (simp add: auto_try_def)

lemma auto_try_None_store:
  assumes "auto_try e cn cid lang w = (None, w1)"
  shows "store w1 = store w"
proof -
  obtain r wa where r: "searchSubtitles e cn lang w = (r, wa)" by force
  then have sa: "store wa = store w" using store_searchSubtitles [of e cn lang w] by simp
  show ?thesis
  proof (cases r)
    case (Inl err)
    then show ?thesis using assms r sa by (auto simp: auto_try_def split: option.splits)
  next
    case (Inr results)
    show ?thesis
    proof (cases results)
      case Nil
      then show ?thesis using assms r sa Inr by (auto simp: auto_try_def split: option.splits)
    next
      case (Cons first others)
      obtain d wb where d: "downloadSubtitle e first wa = (d, wb)" by force
      then have sb: "store wb = store w" using store_downloadSubtitle [of e first wa] sa by simp
      show ?thesis using assms r Inr Cons d sb
        by (cases d) (auto simp: auto_try_def Let_def split: option.splits)
    qed
  qed
qed

lemma auto_pairs_None_store:
  "auto_pairs e cn cid ps w = (None, w') \<Longrightarrow> store w' = store w"
proof (induction ps arbitrary: w)
  case Nil
  then show ?case by simp
next
  case (Cons p ps)
  obtain r w1 where r: "auto_try e cn cid (snd p) w = (r, w1)" by force
  show ?case
  proof (cases r)
    case None
    then have "store w1 = store w" using r auto_try_None_store by blast
    moreover have "auto_pairs e cn cid ps w1 = (None, w')" using Cons.prems r None by simp
    ultimately show ?thesis using Cons.IH by simp
  next
    case (Some sub)
    then show ?thesis using Cons.prems r by simp
  qed
qed

lemma auto_pairs_append:
  "auto_pairs e cn cid (xs @ ys) w =
     (case auto_pairs e cn cid xs w of
        (Some sub, w1) \<Rightarrow> (Some sub, w1)
      | (None, w1) \<Rightarrow> auto_pairs e cn cid ys w1)"
proof (induction xs arbitrary: w)
  case Nil
  then show ?case by simp
next
  case (Cons p ps)
  obtain r w1 where r: "auto_try e cn cid (snd p) w = (r, w1)" by force
  show ?case using r Cons.IH by (cases r) simp_all
qed

lemma auto_langs_pairs:
  "auto_langs e cn cid langs w = auto_pairs e cn cid (map (Pair server) langs) w"
proof (induction langs arbitrary: w)
  case Nil
  then show ?case by simp
next
  case (Cons lang langs)
  obtain r w1 where r: "auto_try e cn cid lang w = (r, w1)" by force
  show ?case using r Cons.IH by (cases r) simp_all
qed

lemma auto_servers_pairs:
  "auto_servers e cn cid servers w = auto_pairs e cn cid (pairs_of servers) w"
proof (induction servers arbitrary: w)
  case Nil
  then show ?case by (simp add: pairs_of_def)
next
  case (Cons server rest)
  have p: "pairs_of (server # rest) = map (Pair server) (languages server) @ pairs_of rest"
    by (simp add: pairs_of_def)
  obtain r w1 where r: "auto_pairs e cn cid (map (Pair server) (languages server)) w = (r, w1)"
    by force
  show ?case
    unfolding p auto_pairs_append using r Cons.IH
    by (cases r) (simp_all add: auto_langs_pairs [of e cn cid _ w server])
qed

lemma autoLoadSubtitles_pairs:
  "autoLoadSubtitles e cn cid w =
   auto_pairs e cn cid (pairs_of (filter autoLoad (getSubtitleServers w))) w"
  by (simp add: autoLoadSubtitles_def Let_def auto_servers_pairs pairs_of_def)

text \<open>
  C4. Let \<open>(srv, lang)\<close> be a pair of the loops of \<open>autoLoadSubtitles\<close>, reached in state \<open>w'\<close>
  after the pairs before it let the loops go on. If a subtitle is saved for the channel and
  \<open>lang\<close>, the loop body returns it at once, leaving the state as it is (no request, so no
  search and no download, and no write), and \<open>autoLoadSubtitles\<close> returns it in that state:
  the pairs behind it are not examined.
\<close>

theorem autoLoad_returns_saved:
  assumes "pairs_of (filter autoLoad (getSubtitleServers w)) = pre @ (srv, lang) # post"
    and "auto_pairs e cn cid pre w = (None, w')"
    and "getSavedSubtitle w cid lang = Some sub"
  shows "auto_try e cn cid lang w' = (Some sub, w') \<and>
         autoLoadSubtitles e cn cid w = (Some sub, w')"
proof -
  have "store w' = store w" using assms(2) by (rule auto_pairs_None_store)
  then have "getSavedSubtitle w' cid lang = Some sub"
    using assms(3) by (simp add: getSavedSubtitle_def getChannelSubtitle_def)
  then have t: "auto_try e cn cid lang w' = (Some sub, w')" by (rule auto_try_saved)
  have "autoLoadSubtitles e cn cid w = auto_pairs e cn cid (pre @ (srv, lang) # post) w"
    unfolding autoLoadSubtitles_pairs assms(1) ..
  also have "\<dots> = (Some sub, w')"
    unfolding auto_pairs_append using assms(2) t by simp
  finally show ?thesis using t by blast
qed

theorem autoLoad_returns_saved_witness:
  "getSavedSubtitle example_world ''5'' ''en'' = Some saved_en \<and>
   fst (autoLoadSubtitles offline_env ''film'' ''5'' example_world) = Some saved_en \<and>
   map req_url (requests (snd (autoLoadSubtitles offline_env ''film'' ''5'' example_world))) =
     [''http://c/api?query=film&lang=ar'', ''http://files/l1.srt'']"
proof -
  define w' where "w' = snd (auto_pairs offline_env ''film'' ''5'' [(server_P2, ''ar'')] example_world)"
  have h1: "pairs_of (filter autoLoad (getSubtitleServers example_world)) =
      [(server_P2, ''ar'')] @ (server_P2, ''en'') # []" by code_simp
  have "fst (auto_pairs offline_env ''film'' ''5'' [(server_P2, ''ar'')] example_world) = None"
    by code_simp
  then have h2: "auto_pairs offline_env ''film'' ''5'' [(server_P2, ''ar'')] example_world = (None, w')"
    unfolding w'_def by (simp add: prod_eq_iff)
  have h3: "getSavedSubtitle example_world ''5'' ''en'' = Some saved_en" by code_simp
  have r: "map req_url (requests w') = [''http://c/api?query=film&lang=ar'', ''http://files/l1.srt'']"
    unfolding w'_def by code_simp
  from autoLoad_returns_saved [OF h1 h2 h3] h3 r show ?thesis by simp
qed

subsection \<open>The channel loader\<close>

lemma str_includes_nonempty: "str_includes p (c # pat) \<Longrightarrow> p \<noteq> []"
  by (auto simp: str_includes_def)

lemma requests_loadXtreamChannels:
  "requests (snd (loadXtreamChannels e b path u pw w)) = requests w @ [xtream_request b path u pw]"
  unfolding loadXtreamChannels_def fetch_def
  by (simp split: http_result.splits option.splits jsval.splits sum.splits)

lemma requests_loadM3UFromServer:
  "requests (snd (loadM3UFromServer e b path u pw w)) = requests w @ [m3u_request b path u pw]"
  unfolding loadM3UFromServer_def fetch_def
  by (simp split: http_result.splits option.splits)

lemma xtream_failure_throws:
  assumes "xtream_failure (net e (requests w) (xtream_request b path u pw))"
  shows "\<exists>err. fst (loadXtreamChannels e b path u pw w) = Inl err"
  using assms unfolding loadXtreamChannels_def fetch_def xtream_failure_def
  by (auto split: http_result.splits option.splits jsval.splits sum.splits)

text \<open>
  C3. For a descriptor whose \<open>apiPath\<close> contains the Xtream marker \<open>player_api\<close>,
  \<open>loadChannels\<close> is the Xtream probe on that path and nothing else: whatever the probe
  throws is what \<open>loadChannels\<close> throws, and the only request issued is the probe's, so the
  M3U probe is never attempted.
\<close>

theorem loadChannels_xtream_hint:
  assumes "apiPath si = Some p" and "str_includes p ''player_api''"
  shows "loadChannels e si w =
           loadXtreamChannels e (base_url si) p (username si) (password si) w \<and>
         requests (snd (loadChannels e si w)) =
           requests w @ [xtream_request (base_url si) p (username si) (password si)]"
proof -
  have "p \<noteq> []" using assms(2) by (rule str_includes_nonempty)
  then have "api_path si = p" using assms(1) by (simp add: api_path_def present_def)
  then have "loadChannels e si w =
      loadXtreamChannels e (base_url si) p (username si) (password si) w"
    using assms(2) by (simp add: loadChannels_def Let_def)
  then show ?thesis by (simp add: requests_loadXtreamChannels)
qed

theorem loadChannels_xtream_hint_witness:
  "apiPath descriptor_xtream = Some ''/panel/player_api.php'' \<and>
   str_includes ''/panel/player_api.php'' ''player_api'' \<and>
   fst (loadChannels m3u_only_env descriptor_xtream empty_world) = Inl FetchFailed \<and>
   map req_url (requests (snd (loadChannels m3u_only_env descriptor_xtream empty_world))) =
     [''http://tv.example:80/panel/player_api.php?username=u&password=p&action=get_live_streams'']"
proof -
  have h1: "apiPath descriptor_xtream = Some ''/panel/player_api.php''" by code_simp
  have h2: "str_includes ''/panel/player_api.php'' ''player_api''" by code_simp
  have x: "fst (loadXtreamChannels m3u_only_env (base_url descriptor_xtream) ''/panel/player_api.php''
            (username descriptor_xtream) (password descriptor_xtream) empty_world) = Inl FetchFailed"
    by code_simp
  have r: "map req_url (requests empty_world @ [xtream_request (base_url descriptor_xtream)
            ''/panel/player_api.php'' (username descriptor_xtream) (password descriptor_xtream)]) =
     [''http://tv.example:80/panel/player_api.php?username=u&password=p&action=get_live_streams'']"
    by code_simp
  note t = loadChannels_xtream_hint [OF h1 h2, of m3u_only_env empty_world]
  from t x have a: "fst (loadChannels m3u_only_env descriptor_xtream empty_world) = Inl FetchFailed"
    by simp
  from t have "requests (snd (loadChannels m3u_only_env descriptor_xtream empty_world)) =
      requests empty_world @ [xtream_request (base_url descriptor_xtream)
            ''/panel/player_api.php'' (username descriptor_xtream) (password descriptor_xtream)]"
    by (rule conjunct2)
  with r have "map req_url (requests (snd (loadChannels m3u_only_env descriptor_xtream empty_world))) =
     [''http://tv.example:80/panel/player_api.php?username=u&password=p&action=get_live_streams'']"
    by (simp only:)
  with h1 h2 a show ?thesis by blast
qed

text \<open>
  A descriptor without \<open>apiPath\<close>, on a server that only serves an M3U playlist: the Xtream
  probe fails, \<open>loadChannels\<close> fails with its error after that single request, and the M3U
  probe, which would have succeeded, is not attempted.
\<close>

theorem loadChannels_absent_path_counterexample:
  "apiPath descriptor_no_path = None \<and>
   fst (loadChannels m3u_only_env descriptor_no_path empty_world) = Inl FetchFailed \<and>
   map req_url (requests (snd (loadChannels m3u_only_env descriptor_no_path empty_world))) =
     [''http://tv.example:80/player_api.php?username=u&password=p&action=get_live_streams''] \<and>
   fst (loadM3UFromServer m3u_only_env (base_url descriptor_no_path) ''/get.php'' ''u'' ''p''
          (snd (loadChannels m3u_only_env descriptor_no_path empty_world))) =
     Inr (ParsedChannels [\<lparr>name = ''One'', logo = [], category = ''Uncategorized'',
                            url = ''http://s/1.ts'', tvgId = [], tvgName = []\<rparr>])"
  by code_simp

text \<open>
  C2 (amended). A descriptor whose \<open>apiPath\<close> is absent (or empty) takes the default path
  \<open>/player_api.php\<close> and is loaded by the Xtream probe alone. For a descriptor whose
  \<open>apiPath\<close> is present and contains none of the markers \<open>player_api\<close>, \<open>get.php\<close> and
  \<open>.m3u\<close>, \<open>loadChannels\<close> attempts the Xtream probe first (on \<open>/player_api.php\<close>); if it
  succeeds its channels are returned; if it throws, for whatever reason and in particular
  on a network error, a non-2xx status or a body that is not a JSON array, the M3U probe is
  attempted next (on \<open>/get.php\<close>) and its outcome, channels or error, is the outcome of
  \<open>loadChannels\<close>; the error of the Xtream probe is dropped.
\<close>

theorem loadChannels_no_hint:
  "(\<not> present (apiPath si) \<longrightarrow>
      loadChannels e si w =
        loadXtreamChannels e (base_url si) ''/player_api.php'' (username si) (password si) w) \<and>
   (apiPath si = Some p \<and> p \<noteq> [] \<and> \<not> str_includes p ''player_api'' \<and>
    \<not> str_includes p ''get.php'' \<and> \<not> str_includes p ''.m3u'' \<longrightarrow>
      (case fst (loadXtreamChannels e (base_url si) ''/player_api.php'' (username si) (password si) w) of
         Inr chs \<Rightarrow>
           loadChannels e si w =
             loadXtreamChannels e (base_url si) ''/player_api.php'' (username si) (password si) w
       | Inl err \<Rightarrow>
           loadChannels e si w =
             loadM3UFromServer e (base_url si) ''/get.php'' (username si) (password si)
               (snd (loadXtreamChannels e (base_url si) ''/player_api.php'' (username si)
                       (password si) w))) \<and>
      (xtream_failure (net e (requests w)
           (xtream_request (base_url si) ''/player_api.php'' (username si) (password si))) \<longrightarrow>
         loadChannels e si w =
           loadM3UFromServer e (base_url si) ''/get.php'' (username si) (password si)
             (snd (loadXtreamChannels e (base_url si) ''/player_api.php'' (username si)
                     (password si) w))) \<and>
      requests (snd (loadXtreamChannels e (base_url si) ''/player_api.php'' (username si)
                       (password si) w)) =
        requests w @ [xtream_request (base_url si) ''/player_api.php'' (username si) (password si)])"
proof (intro conjI impI)
  assume "\<not> present (apiPath si)"
  then have "api_path si = ''/player_api.php''" by (simp add: api_path_def)
  moreover have "str_includes ''/player_api.php'' ''player_api''" by code_simp
  ultimately show "loadChannels e si w =
      loadXtreamChannels e (base_url si) ''/player_api.php'' (username si) (password si) w"
    by (simp add: loadChannels_def Let_def)
next
  let ?X = "loadXtreamChannels e (base_url si) ''/player_api.php'' (username si) (password si) w"
  assume a: "apiPath si = Some p \<and> p \<noteq> [] \<and> \<not> str_includes p ''player_api'' \<and>
    \<not> str_includes p ''get.php'' \<and> \<not> str_includes p ''.m3u''"
  then have ap: "api_path si = p" by (simp add: api_path_def present_def)
  obtain r w1 where x: "?X = (r, w1)" by force
  have lc: "loadChannels e si w =
      (case r of Inr chs \<Rightarrow> (Inr chs, w1)
       | Inl err \<Rightarrow> loadM3UFromServer e (base_url si) ''/get.php'' (username si) (password si) w1)"
    using a ap x by (simp add: loadChannels_def Let_def split: sum.splits)
  show c: "case fst ?X of
       Inr chs \<Rightarrow> loadChannels e si w = ?X
     | Inl err \<Rightarrow> loadChannels e si w =
         loadM3UFromServer e (base_url si) ''/get.php'' (username si) (password si) (snd ?X)"
    using lc x by (cases r) simp_all
  show "loadChannels e si w =
      loadM3UFromServer e (base_url si) ''/get.php'' (username si) (password si) (snd ?X)"
    if "xtream_failure (net e (requests w)
           (xtream_request (base_url si) ''/player_api.php'' (username si) (password si)))"
  proof -
    from xtream_failure_throws [OF that] obtain err where "fst ?X = Inl err" by blast
    then show ?thesis using c by simp
  qed
  show "requests (snd ?X) =
      requests w @ [xtream_request (base_url si) ''/player_api.php'' (username si) (password si)]"
    by (rule requests_loadXtreamChannels)
qed

theorem loadChannels_no_hint_witness:
  "fst (loadChannels m3u_only_env descriptor_no_path empty_world) = Inl FetchFailed \<and>
   fst (loadChannels m3u_only_env descriptor_other_path empty_world) =
     Inr (ParsedChannels [\<lparr>name = ''One'', logo = [], category = ''Uncategorized'',
                            url = ''http://s/1.ts'', tvgId = [], tvgName = []\<rparr>]) \<and>
   map req_url (requests (snd (loadChannels m3u_only_env descriptor_other_path empty_world))) =
     [''http://tv.example:80/player_api.php?username=u&password=p&action=get_live_streams'',
      ''http://tv.example:80/get.php?username=u&password=p&type=m3u_plus'']"
proof -
  let ?X = "loadXtreamChannels m3u_only_env (base_url descriptor_other_path) ''/player_api.php''
      (username descriptor_other_path) (password descriptor_other_path) empty_world"
  let ?M = "loadM3UFromServer m3u_only_env (base_url descriptor_other_path) ''/get.php''
      (username descriptor_other_path) (password descriptor_other_path) (snd ?X)"
  have h0: "\<not> present (apiPath descriptor_no_path)" by code_simp
  have h1: "apiPath descriptor_other_path = Some ''/api'' \<and> ''/api'' \<noteq> [] \<and>
    \<not> str_includes ''/api'' ''player_api'' \<and> \<not> str_includes ''/api'' ''get.php'' \<and>
    \<not> str_includes ''/api'' ''.m3u''" by code_simp
  have h2: "xtream_failure (net m3u_only_env (requests empty_world)
      (xtream_request (base_url descriptor_other_path) ''/player_api.php''
         (username descriptor_other_path) (password descriptor_other_path)))" by code_simp
  have x0: "fst (loadXtreamChannels m3u_only_env (base_url descriptor_no_path) ''/player_api.php''
      (username descriptor_no_path) (password descriptor_no_path) empty_world) = Inl FetchFailed"
    by code_simp
  have m: "fst ?M = Inr (ParsedChannels [\<lparr>name = ''One'', logo = [], category = ''Uncategorized'',
                            url = ''http://s/1.ts'', tvgId = [], tvgName = []\<rparr>])"
    by code_simp
  have r: "map req_url (requests (snd ?M)) =
     [''http://tv.example:80/player_api.php?username=u&password=p&action=get_live_streams'',
      ''http://tv.example:80/get.php?username=u&password=p&type=m3u_plus'']"
    by code_simp
  from loadChannels_no_hint [of descriptor_no_path m3u_only_env empty_world] h0 x0
  have a: "fst (loadChannels m3u_only_env descriptor_no_path empty_world) = Inl FetchFailed"
    by simp
  from loadChannels_no_hint [of descriptor_other_path m3u_only_env empty_world "''/api''"] h1 h2
  have "loadChannels m3u_only_env descriptor_other_path empty_world = ?M" by blast
  with a m r show ?thesis by simp
qed

end
